theory Spec2Isabelle
  imports Main "HOL-Library.Word" "HOL-Library.Multiset" "HOL-Library.Monad_Syntax"
begin

section \<open>Go library functions the program calls\<close>

text \<open>
  Go strings are byte sequences; a \<^typ>\<open>string\<close> is a list of 8-bit characters, so
  \<^const>\<open>length\<close> is Go's \<open>len\<close>.  Go's \<open>int\<close>, \<open>int64\<close> and \<open>time.Duration\<close> are 64-bit;
  they are integers here, with the wrap-around or the saturation written out where the
  source can reach it.  Counts of stored spans are bounded by memory and never wrap.
\<close>

subsection \<open>time\<close>

text \<open>
  A \<open>time.Time\<close> built by \<open>time.Unix(0, ns)\<close> or read by \<open>time.Now()\<close> is the number of
  nanoseconds since the Unix epoch.  \<open>Before\<close> and \<open>After\<close> are \<open><\<close> and \<open>>\<close>.  A
  \<open>time.Duration\<close> is an \<open>int64\<close> of nanoseconds; \<open>Time.Sub\<close> saturates at its bounds.
\<close>

type_synonym Time = int
type_synonym Duration = int

definition minDuration :: Duration where
  "minDuration = - (2 ^ 63)"

definition maxDuration :: Duration where
  "maxDuration = 2 ^ 63 - 1"

definition Time_Sub :: "Time \<Rightarrow> Time \<Rightarrow> Duration" where
  "Time_Sub t u = max minDuration (min maxDuration (t - u))"

subsection \<open>encoding/hex\<close>

definition hexdigit :: "nat \<Rightarrow> char" where
  "hexdigit n = ''0123456789abcdef'' ! (n mod 16)"

text \<open>\<open>hex.EncodeToString\<close>: two lower-case digits for each byte.  \<open>fmt.Sprintf("%x", b)\<close>
  on a byte slice prints the same digits.\<close>

definition hex_EncodeToString :: "8 word list \<Rightarrow> string" where
  "hex_EncodeToString bs =
     concat (map (\<lambda>b. [hexdigit (unat b div 16), hexdigit (unat b mod 16)]) bs)"

subsection \<open>Maps\<close>

text \<open>
  A Go map is a partial function.  Reading a missing key of a map of slices gives the
  nil slice.  \<open>range\<close> over a map visits every key once, in an order that Go leaves
  unspecified and changes from one loop to the next: every loop over a map takes the
  order of its run as a parameter, and \<open>visits\<close> says that the order is one Go can
  choose.
\<close>

definition len_map :: "('k \<rightharpoonup> 'v) \<Rightarrow> int" where
  "len_map m = int (card (dom m))"

definition slice_at :: "('k \<rightharpoonup> 'v list) \<Rightarrow> 'k \<Rightarrow> 'v list" where
  "slice_at m k = (case m k of None \<Rightarrow> [] | Some xs \<Rightarrow> xs)"

definition range_map :: "('k \<rightharpoonup> 'v) \<Rightarrow> 'k list \<Rightarrow> ('k \<times> 'v) list" where
  "range_map m order = List.map_filter (\<lambda>k. map_option (Pair k) (m k)) order"

definition visits :: "('k \<rightharpoonup> 'v) \<Rightarrow> 'k list \<Rightarrow> bool" where
  "visits m order = (distinct order \<and> set order = dom m)"

section \<open>The data model (mcpserver.go)\<close>

record CodeSpanContext =
  FilePath :: string
  LineStart :: int
  LineEnd :: int
  FunctionName :: string
  SpanID :: string
  TraceID :: string
  Operation :: string
  CodeSnapshot :: string

text \<open>The fields of the wire types \<open>tracepb.Span\<close>, \<open>tracepb.Span_Event\<close> and
  \<open>commonpb.KeyValue\<close> that the program reads.  \<open>GetStringValue\<close> is the empty string
  for an absent value and for every value that is not a string.  The attributes of a
  span or an event and the events of a span are slices of pointers; an element is
  nil (\<open>None\<close>) or a message: \<open>json.Unmarshal\<close> decodes a \<open>null\<close> in a list into a nil
  element.\<close>

datatype AnyValue = StringValue string | OtherValue

record KeyValue =
  Key :: string
  Value :: "AnyValue option"

definition GetStringValue :: "KeyValue \<Rightarrow> string" where
  "GetStringValue attr = (case Value attr of Some (StringValue s) \<Rightarrow> s | _ \<Rightarrow> [])"

record Span_Event =
  Name_ev :: string
  Attributes_ev :: "KeyValue option list"

record Span =
  TraceId :: "8 word list"
  SpanId :: "8 word list"
  ParentSpanId :: "8 word list"
  Name :: string
  Attributes :: "KeyValue option list"
  Events_sp :: "Span_Event option list"
  StartTimeUnixNano :: "64 word"
  EndTimeUnixNano :: "64 word"

record SpanData =
  SpanProto :: "Span option"
  Events :: "Span_Event option list"
  ParentID :: string
  Children :: "string list"
  FileContexts :: "CodeSpanContext list"
  StartTime :: Time
  EndTime :: Time
  Duration :: Duration

text \<open>
  The store keeps pointers to \<open>SpanData\<close> objects and appends to a parent's \<open>Children\<close>
  through them, so the objects live in a heap and the store holds addresses.  A Go
  pointer is nil (\<open>None\<close>) or the address of an object.  The \<open>CodeSpanContext\<close> objects
  are shared by a span and the file index but are never written after the analyzer has
  built them, so they are values.
\<close>

type_synonym addr = nat

record TraceData =
  TraceID_t :: string
  RootSpan :: "addr option"
  Spans :: "string \<rightharpoonup> addr"
  Files :: "string \<rightharpoonup> bool"
  StartTime_t :: Time
  EndTime_t :: Time
  Status :: string
  ErrorMessage :: string

record TraceStore =
  traces :: "string \<rightharpoonup> TraceData"
  spansByFile :: "string \<rightharpoonup> CodeSpanContext list"
  maxSpans :: int
  retention :: Duration

record World =
  heap :: "addr \<Rightarrow> SpanData"
  store :: TraceStore

section \<open>The correlation store (ui.go)\<close>

subsection \<open>cleanupOldTraces\<close>

text \<open>The choices one run of the sweep leaves to the environment: the clock, the
  order of its two loops over \<open>store.traces\<close>, and the order of the loop over
  \<open>trace.Files\<close> for each trace it removes.\<close>

record Sweep =
  now :: Time
  order1 :: "string list"
  order2 :: "string list"
  fileOrder :: "string \<Rightarrow> string list"

text \<open>Lines 103-114: count the spans and collect the traces past the retention time.\<close>

definition retentionStep ::
  "Time \<Rightarrow> Duration \<Rightarrow> string \<times> TraceData \<Rightarrow> string list \<times> int \<Rightarrow> string list \<times> int" where
  "retentionStep nw ret = (\<lambda>(tid, trace) (oldTraceIDs, totalSpans).
     let totalSpans = totalSpans + len_map (Spans trace) in
     if ret > 0 \<and> Time_Sub nw (EndTime_t trace) > ret
     then (oldTraceIDs @ [tid], totalSpans)
     else (oldTraceIDs, totalSpans))"

definition retentionPass :: "Time \<Rightarrow> string list \<Rightarrow> TraceStore \<Rightarrow> string list \<times> int" where
  "retentionPass nw order st =
     fold (retentionStep nw (retention st)) (range_map (traces st) order) ([], 0)"

text \<open>Lines 132-138: the exchange sort of the \<open>(id, end time)\<close> pairs, oldest first.
  The slice keeps its length, so both loops run over fixed index ranges.\<close>

definition swapIfAfter :: "nat \<Rightarrow> nat \<Rightarrow> (string \<times> Time) list \<Rightarrow> (string \<times> Time) list" where
  "swapIfAfter i j ages =
     (if snd (ages ! i) > snd (ages ! j) then ages[i := ages ! j, j := ages ! i] else ages)"

definition sortInner :: "nat \<Rightarrow> (string \<times> Time) list \<Rightarrow> (string \<times> Time) list" where
  "sortInner i ages = fold (swapIfAfter i) [i + 1 ..< length ages] ages"

definition sortAges :: "(string \<times> Time) list \<Rightarrow> (string \<times> Time) list" where
  "sortAges ages = fold sortInner [0 ..< length ages] ages"

text \<open>Lines 141-150: take traces from the front until the total is within the limit.
  A \<open>break\<close> leaves the rest of the slice untouched.\<close>

fun takeOldest ::
  "TraceStore \<Rightarrow> (string \<times> Time) list \<Rightarrow> int \<Rightarrow> string list \<Rightarrow> string list" where
  "takeOldest st [] totalSpans oldTraceIDs = oldTraceIDs"
| "takeOldest st (ta # ages) totalSpans oldTraceIDs =
     (if totalSpans \<le> maxSpans st then oldTraceIDs
      else (case traces st (fst ta) of
              None \<Rightarrow> takeOldest st ages totalSpans oldTraceIDs
            | Some trace \<Rightarrow>
                takeOldest st ages (totalSpans - len_map (Spans trace)) (oldTraceIDs @ [fst ta])))"

text \<open>Lines 116-152: the size pass.\<close>

definition sizePass :: "string list \<Rightarrow> TraceStore \<Rightarrow> string list \<times> int \<Rightarrow> string list" where
  "sizePass order st = (\<lambda>(oldTraceIDs, totalSpans).
     if maxSpans st > 0 \<and> totalSpans > maxSpans st
     then (if length oldTraceIDs = 0
           then takeOldest st
                  (sortAges (map (\<lambda>(tid, trace). (tid, EndTime_t trace)) (range_map (traces st) order)))
                  totalSpans oldTraceIDs
           else oldTraceIDs)
     else oldTraceIDs)"

text \<open>Lines 159-172: drop from one file's bucket the contexts that carry the trace id.\<close>

definition unindexFile ::
  "string \<Rightarrow> string \<Rightarrow> (string \<rightharpoonup> CodeSpanContext list) \<Rightarrow> (string \<rightharpoonup> CodeSpanContext list)" where
  "unindexFile tid file byFile =
     (let newSpans = filter (\<lambda>sc. TraceID sc \<noteq> tid) (slice_at byFile file)
      in if length newSpans > 0 then byFile(file \<mapsto> newSpans) else byFile(file := None))"

text \<open>Lines 155-176: remove one trace.  The ids come from a loop over the map, each
  once, so the trace is there; the model skips an id that is not.  (\<open>tid\<close> is the source's \<open>id\<close>.)\<close>

definition removeTrace :: "(string \<Rightarrow> string list) \<Rightarrow> string \<Rightarrow> TraceStore \<Rightarrow> TraceStore" where
  "removeTrace forder tid st =
     (case traces st tid of
        None \<Rightarrow> st
      | Some trace \<Rightarrow>
          st\<lparr>spansByFile := fold (\<lambda>(file, _). unindexFile tid file)
                                (range_map (Files trace) (forder tid)) (spansByFile st),
             traces := (traces st)(tid := None)\<rparr>)"

definition markedForRemoval :: "Sweep \<Rightarrow> TraceStore \<Rightarrow> string list" where
  "markedForRemoval sw st = sizePass (order2 sw) st (retentionPass (now sw) (order1 sw) st)"

definition cleanupOldTraces :: "Sweep \<Rightarrow> TraceStore \<Rightarrow> TraceStore" where
  "cleanupOldTraces sw st =
     (if maxSpans st \<le> 0 \<and> retention st \<le> 0 then st
      else fold (removeTrace (fileOrder sw)) (markedForRemoval sw st) st)"

subsection \<open>AddSpan\<close>

text \<open>Lines 72-85: index the file contexts of the span.\<close>

definition indexContext ::
  "CodeSpanContext \<Rightarrow> (string \<rightharpoonup> CodeSpanContext list) \<times> TraceData
     \<Rightarrow> (string \<rightharpoonup> CodeSpanContext list) \<times> TraceData" where
  "indexContext fileCtx = (\<lambda>(byFile, trace).
     let filePath = FilePath fileCtx;
         byFile = byFile(filePath \<mapsto> slice_at byFile filePath @ [fileCtx]);
         trace = trace\<lparr>Files := (Files trace)(filePath \<mapsto> True)\<rparr>
     in if Operation fileCtx = ''error'' \<or> Operation fileCtx = ''exception''
        then (byFile, trace\<lparr>Status := ''error''\<rparr>)
        else (byFile, trace))"

text \<open>Lines 36-47: get or create the trace.\<close>

definition getOrCreate :: "string \<Rightarrow> SpanData \<Rightarrow> TraceStore \<Rightarrow> TraceData" where
  "getOrCreate traceID spanData st =
     (case traces st traceID of
        Some trace \<Rightarrow> trace
      | None \<Rightarrow> \<lparr>TraceID_t = traceID, RootSpan = None, Spans = Map.empty, Files = Map.empty,
                 StartTime_t = StartTime spanData, EndTime_t = EndTime spanData,
                 Status = [], ErrorMessage = []\<rparr>)"

text \<open>Lines 49-58: widen the time range of the trace and store the span.\<close>

definition putSpan :: "string \<Rightarrow> addr \<Rightarrow> SpanData \<Rightarrow> TraceData \<Rightarrow> TraceData" where
  "putSpan spanID p spanData trace =
     (let trace = (if StartTime spanData < StartTime_t trace
                   then trace\<lparr>StartTime_t := StartTime spanData\<rparr> else trace);
          trace = (if EndTime spanData > EndTime_t trace
                   then trace\<lparr>EndTime_t := EndTime spanData\<rparr> else trace)
      in trace\<lparr>Spans := (Spans trace)(spanID \<mapsto> p)\<rparr>)"

text \<open>Lines 60-69: a span without parent becomes the root; otherwise its id is
  appended to the children of the parent, when the trace holds the parent.\<close>

definition linkSpan ::
  "string \<Rightarrow> addr \<Rightarrow> SpanData \<Rightarrow> (addr \<Rightarrow> SpanData) \<times> TraceData \<Rightarrow> (addr \<Rightarrow> SpanData) \<times> TraceData" where
  "linkSpan spanID p spanData = (\<lambda>(h, trace).
     if length (ParentID spanData) = 0 \<or> ParentID spanData = ''0000000000000000''
     then (h, trace\<lparr>RootSpan := Some p\<rparr>)
     else (case Spans trace (ParentID spanData) of
             Some q \<Rightarrow> (h(q := (h q)\<lparr>Children := Children (h q) @ [spanID]\<rparr>), trace)
           | None \<Rightarrow> (h, trace)))"

text \<open>Lines 33-85: everything \<open>AddSpan\<close> does before the sweep, for the object at \<open>p\<close>
  with the wire span \<open>proto\<close>.\<close>

definition insertSpan :: "addr \<Rightarrow> Span \<Rightarrow> World \<Rightarrow> World" where
  "insertSpan p proto w =
     (let spanData = heap w p;
          traceID = hex_EncodeToString (TraceId proto);
          spanID = hex_EncodeToString (SpanId proto);
          trace = putSpan spanID p spanData (getOrCreate traceID spanData (store w));
          (h, trace) = linkSpan spanID p spanData (heap w, trace);
          (byFile, trace) = fold indexContext (FileContexts (h p)) (spansByFile (store w), trace)
      in \<lparr>heap = h, store = (store w)\<lparr>traces := (traces (store w))(traceID \<mapsto> trace), spansByFile := byFile\<rparr>\<rparr>)"

text \<open>\<open>AddSpan\<close>.  A nil \<open>spanData\<close> or a nil \<open>SpanProto\<close> panics at line 33: \<open>None\<close>.\<close>

definition AddSpan :: "Sweep \<Rightarrow> addr option \<Rightarrow> World \<Rightarrow> World option" where
  "AddSpan sw spanData w =
     (case spanData of
        None \<Rightarrow> None
      | Some p \<Rightarrow>
          (case SpanProto (heap w p) of
             None \<Rightarrow> None
           | Some proto \<Rightarrow>
               (let w = insertSpan p proto w
                in Some (w\<lparr>store := cleanupOldTraces sw (store w)\<rparr>))))"

text \<open>A run of the store: the calls of \<open>AddSpan\<close> in the order the lock admits them.\<close>

fun AddSpans :: "(Sweep \<times> addr option) list \<Rightarrow> World \<Rightarrow> World option" where
  "AddSpans [] w = Some w"
| "AddSpans (call # calls) w =
     (case AddSpan (fst call) (snd call) w of None \<Rightarrow> None | Some w' \<Rightarrow> AddSpans calls w')"

subsection \<open>Point lookups\<close>

definition GetTrace :: "World \<Rightarrow> string \<Rightarrow> TraceData option" where
  "GetTrace w traceID = traces (store w) traceID"

definition GetSpan :: "World \<Rightarrow> string \<Rightarrow> string \<Rightarrow> addr option" where
  "GetSpan w traceID spanID =
     (case traces (store w) traceID of None \<Rightarrow> None | Some trace \<Rightarrow> Spans trace spanID)"

text \<open>What a caller sees after a run: the span stored under an id, and the children
  of an object.  The outer \<open>None\<close> is a panic of the run.\<close>

definition spanAfter ::
  "(Sweep \<times> addr option) list \<Rightarrow> World \<Rightarrow> string \<Rightarrow> string \<Rightarrow> addr option option" where
  "spanAfter calls w traceID spanID =
     map_option (\<lambda>w'. GetSpan w' traceID spanID) (AddSpans calls w)"

definition childrenAfter ::
  "(Sweep \<times> addr option) list \<Rightarrow> World \<Rightarrow> addr \<Rightarrow> string list option" where
  "childrenAfter calls w p = map_option (\<lambda>w'. Children (heap w' p)) (AddSpans calls w)"

subsection \<open>ListFiles and GetFileTraces\<close>

definition ListFiles :: "string list \<Rightarrow> World \<Rightarrow> string list" where
  "ListFiles order w = map fst (range_map (spansByFile (store w)) order)"

definition GetFileTraces :: "World \<Rightarrow> string \<Rightarrow> (string \<rightharpoonup> CodeSpanContext list)" where
  "GetFileTraces w filePath =
     fold (\<lambda>sc result. result(TraceID sc \<mapsto> slice_at result (TraceID sc) @ [sc]))
       (slice_at (spansByFile (store w)) filePath) Map.empty"

subsection \<open>SearchTraces\<close>

record SearchRequest =
  Query :: string
  Files_rq :: "string list"
  TimeRange :: string
  ErrorsOnly :: bool
  Limit :: int

text \<open>\<open>Duration\<close> is the \<open>float64\<close> of an \<open>int64\<close> count of milliseconds, which is below
  \<open>2^53\<close> in absolute value and so exact: an integer here.\<close>

record TraceDigest =
  TraceID_d :: string
  Name_d :: string
  Duration_d :: int
  SpanCount :: int
  ErrorCount :: int
  Files_d :: "string list"
  StartTime_d :: Time
  KeyEvents :: "string list"

text \<open>The zero \<open>time.Time\<close> is the first instant of the year 1, which is 62135596800
  seconds before the Unix epoch.  Go's integer division truncates towards zero, and
  the negation of an \<open>int64\<close> wraps at the least value.\<close>

definition zeroTime :: Time where
  "zeroTime = - 62135596800000000000"

definition IsZero :: "Time \<Rightarrow> bool" where
  "IsZero t = (t = zeroTime)"

definition quot :: "int \<Rightarrow> int \<Rightarrow> int" where
  "quot a b = sgn a * sgn b * (\<bar>a\<bar> div \<bar>b\<bar>)"

definition Milliseconds :: "Duration \<Rightarrow> int" where
  "Milliseconds d = quot d 1000000"

definition neg64 :: "int \<Rightarrow> int" where
  "neg64 d = (if d = minDuration then minDuration else - d)"

text \<open>The choices one search leaves to the environment: the clock, the order of the
  loop over \<open>store.traces\<close>, and for the trace of each id the order of the loop over its
  files at line 313, of the loop over its files at line 338, and of each loop over its
  spans at line 351 (one for every file).  \<open>time.ParseDuration\<close> is a library function
  and a parameter (\<open>None\<close> is an error).\<close>

record Search =
  now_s :: Time
  traceOrder :: "string list"
  filterOrder :: "string \<Rightarrow> string list"
  digestOrder :: "string \<Rightarrow> string list"
  spanOrder :: "string \<Rightarrow> string \<Rightarrow> string list"

text \<open>Lines 289-296: the time range filter.\<close>

definition minTimeOf :: "(string \<Rightarrow> Duration option) \<Rightarrow> Time \<Rightarrow> SearchRequest \<Rightarrow> Time" where
  "minTimeOf ParseDuration nw req =
     (if TimeRange req \<noteq> []
      then (case ParseDuration (TimeRange req) of
              Some duration \<Rightarrow> nw + neg64 duration
            | None \<Rightarrow> zeroTime)
      else zeroTime)"

text \<open>Lines 310-322: \<open>fileSet\<close> is nil for an empty file list; otherwise the trace must
  have a file of the list among the keys of \<open>Files\<close>.\<close>

definition hasMatchingFile :: "SearchRequest \<Rightarrow> TraceData \<Rightarrow> string list \<Rightarrow> bool" where
  "hasMatchingFile req trace order =
     list_ex (\<lambda>(file, _). file \<in> set (Files_rq req)) (range_map (Files trace) order)"

text \<open>Lines 350-359, for one file of the trace: the error contexts on that file, over
  the spans of the trace.\<close>

definition isErrorOp :: "CodeSpanContext \<Rightarrow> bool" where
  "isErrorOp ctx = (Operation ctx = ''error'' \<or> Operation ctx = ''exception'')"

definition errorsOnFile :: "(addr \<Rightarrow> SpanData) \<Rightarrow> TraceData \<Rightarrow> string list \<Rightarrow> string \<Rightarrow> int" where
  "errorsOnFile h trace order file =
     sum_list (map (\<lambda>(_, span).
        int (length (filter (\<lambda>ctx. FilePath ctx = file \<and> isErrorOp ctx) (FileContexts (h span)))))
       (range_map (Spans trace) order))"

text \<open>Lines 325-372: the digest of a matching trace.  The per-file insights that the
  same loop collects in a separate map do not enter the digests and are left out.\<close>

definition digestOf :: "Search \<Rightarrow> (addr \<Rightarrow> SpanData) \<Rightarrow> string \<Rightarrow> TraceData \<Rightarrow> TraceDigest" where
  "digestOf env h tid trace =
     (let files = map fst (range_map (Files trace) (digestOrder env tid))
      in \<lparr>TraceID_d = tid,
          Name_d = (case RootSpan trace of
                      None \<Rightarrow> []
                    | Some root \<Rightarrow> (case SpanProto (h root) of None \<Rightarrow> [] | Some proto \<Rightarrow> Name proto)),
          Duration_d = Milliseconds (Time_Sub (EndTime_t trace) (StartTime_t trace)),
          SpanCount = len_map (Spans trace),
          ErrorCount = sum_list (map (\<lambda>file. errorsOnFile h trace (spanOrder env tid file) file) files),
          Files_d = files,
          StartTime_d = StartTime_t trace,
          KeyEvents = []\<rparr>)"

text \<open>Lines 299-380: the loop over the traces, with its three \<open>continue\<close>s and its
  \<open>break\<close>.\<close>

fun searchLoop ::
  "Search \<Rightarrow> (addr \<Rightarrow> SpanData) \<Rightarrow> SearchRequest \<Rightarrow> Time \<Rightarrow> (string \<times> TraceData) list
     \<Rightarrow> TraceDigest list \<Rightarrow> TraceDigest list" where
  "searchLoop env h req minTime [] found = found"
| "searchLoop env h req minTime ((tid, trace) # rest) found =
     (if \<not> IsZero minTime \<and> EndTime_t trace < minTime then searchLoop env h req minTime rest found
      else if ErrorsOnly req \<and> Status trace \<noteq> ''error'' then searchLoop env h req minTime rest found
      else if length (Files_rq req) > 0 \<and> \<not> hasMatchingFile req trace (filterOrder env tid)
      then searchLoop env h req minTime rest found
      else (let found = found @ [digestOf env h tid trace]
            in if Limit req > 0 \<and> int (length found) \<ge> Limit req then found
               else searchLoop env h req minTime rest found))"

text \<open>\<open>SearchTraces\<close>: the \<open>Traces\<close> of the response.\<close>

definition SearchTraces ::
  "(string \<Rightarrow> Duration option) \<Rightarrow> Search \<Rightarrow> SearchRequest \<Rightarrow> World \<Rightarrow> TraceDigest list" where
  "SearchTraces ParseDuration env req w =
     searchLoop env (heap w) req (minTimeOf ParseDuration (now_s env) req)
       (range_map (traces (store w)) (traceOrder env)) []"

text \<open>The three filters of the loop as one predicate on a stored trace.\<close>

definition matches :: "SearchRequest \<Rightarrow> Time \<Rightarrow> TraceData \<Rightarrow> bool" where
  "matches req minTime trace =
     ((IsZero minTime \<or> \<not> EndTime_t trace < minTime) \<and>
      (ErrorsOnly req \<longrightarrow> Status trace = ''error'') \<and>
      (Files_rq req \<noteq> [] \<longrightarrow> (\<exists>file \<in> set (Files_rq req). file \<in> dom (Files trace))))"

subsection \<open>Quantities the properties speak about\<close>

text \<open>The number of spans in the store, whether the retention pass marks a trace at
  a given time, and the end time of a stored trace.\<close>

definition totalSpans :: "TraceStore \<Rightarrow> int" where
  "totalSpans st = (\<Sum>tid \<in> dom (traces st). len_map (Spans (the (traces st tid))))"

definition expired :: "Time \<Rightarrow> TraceStore \<Rightarrow> string \<Rightarrow> bool" where
  "expired nw st tid =
     (case traces st tid of
        None \<Rightarrow> False
      | Some trace \<Rightarrow> retention st > 0 \<and> Time_Sub nw (EndTime_t trace) > retention st)"

definition endOf :: "TraceStore \<Rightarrow> string \<Rightarrow> Time" where
  "endOf st tid = EndTime_t (the (traces st tid))"

definition tracesAfter :: "(Sweep \<times> addr option) list \<Rightarrow> World \<Rightarrow> string set option" where
  "tracesAfter calls w = map_option (\<lambda>w'. dom (traces (store w'))) (AddSpans calls w)"

section \<open>More of the Go library: strings, paths, numbers, regular expressions\<close>

subsection \<open>strings\<close>

text \<open>
  \<open>strings.ToLower\<close> has two paths.  A string of ASCII bytes (every byte below
  \<open>utf8.RuneSelf\<close>, \<open>0x80\<close>) has its letters \<open>A\<close> to \<open>Z\<close> lowered byte by byte.  Any
  other string is decoded into runes, mapped rune by rune with the case tables of the
  package \<open>unicode\<close> and encoded again (\<open>strings.Map(unicode.ToLower, s)\<close>); this
  lowers the letters of every alphabet, some of them onto ASCII letters (the Kelvin
  sign onto \<open>k\<close>).  That path is the first argument, \<open>mapLower\<close>: what is proved
  below holds for every such function, so for the library's.
\<close>

definition lowerChar :: "char \<Rightarrow> char" where
  "lowerChar c =
     (case map_of (zip ''ABCDEFGHIJKLMNOPQRSTUVWXYZ'' ''abcdefghijklmnopqrstuvwxyz'') c of
        Some l \<Rightarrow> l
      | None \<Rightarrow> c)"

definition isASCII :: "string \<Rightarrow> bool" where
  "isASCII s = list_all (\<lambda>c. of_char c < (0x80 :: nat)) s"

definition ToLower :: "(string \<Rightarrow> string) \<Rightarrow> string \<Rightarrow> string" where
  "ToLower mapLower s = (if isASCII s then map lowerChar s else mapLower s)"

fun HasPrefix :: "string \<Rightarrow> string \<Rightarrow> bool" where
  "HasPrefix s [] = True"
| "HasPrefix [] (p # ps) = False"
| "HasPrefix (c # cs) (p # ps) = (c = p \<and> HasPrefix cs ps)"

fun Contains :: "string \<Rightarrow> string \<Rightarrow> bool" where
  "Contains [] substr = (substr = [])"
| "Contains (c # cs) substr = (HasPrefix (c # cs) substr \<or> Contains cs substr)"

fun Join :: "string list \<Rightarrow> string \<Rightarrow> string" where
  "Join [] sep = []"
| "Join [x] sep = x"
| "Join (x # y # ys) sep = x @ sep @ Join (y # ys) sep"

subsection \<open>path/filepath, on Unix\<close>

definition IsAbs :: "string \<Rightarrow> bool" where
  "IsAbs path = HasPrefix path ''/''"

text \<open>The elements of a path between its separators.\<close>

fun splitPath :: "string \<Rightarrow> string \<Rightarrow> string list" where
  "splitPath [] cur = [cur]"
| "splitPath (c # cs) cur = (if c = CHR ''/'' then cur # splitPath cs [] else splitPath cs (cur @ [c]))"

text \<open>\<open>filepath.Clean\<close> as its documentation defines it: separators are merged, \<open>.\<close>
  elements are dropped, an inner \<open>..\<close> removes the element before it, a \<open>..\<close> at the
  start of a rooted path is dropped, and the empty result is \<open>.\<close>.  \<open>cleanStep\<close> keeps the
  elements seen so far, last first.\<close>

definition cleanStep :: "bool \<Rightarrow> string \<Rightarrow> string list \<Rightarrow> string list" where
  "cleanStep rooted elem seen =
     (if elem = [] \<or> elem = ''.'' then seen
      else if elem = ''..''
           then (case seen of
                   [] \<Rightarrow> (if rooted then [] else [''..''])
                 | e # es \<Rightarrow> (if e = ''..'' then ''..'' # seen else es))
           else elem # seen)"

definition Clean :: "string \<Rightarrow> string" where
  "Clean path =
     (let rooted = IsAbs path;
          out = (if rooted then ''/'' else []) @
                Join (rev (fold (cleanStep rooted) (splitPath path []) [])) ''/''
      in if out = [] then ''.'' else out)"

text \<open>\<open>filepath.Join\<close> of two elements: empty elements are ignored, the rest is joined
  by a separator and cleaned.\<close>

definition filepath_Join :: "string \<Rightarrow> string \<Rightarrow> string" where
  "filepath_Join a b =
     (if a \<noteq> [] then Clean (a @ ''/'' @ b) else if b \<noteq> [] then Clean b else [])"

text \<open>\<open>filepath.Ext\<close>: the suffix from the last dot of the last element.\<close>

fun extFrom :: "string \<Rightarrow> string \<Rightarrow> string" where
  "extFrom [] suffix = []"
| "extFrom (c # before) suffix =
     (if c = CHR ''/'' then []
      else if c = CHR ''.'' then c # suffix
      else extFrom before (c # suffix))"

definition Ext :: "string \<Rightarrow> string" where
  "Ext path = extFrom (rev path) []"

subsection \<open>Integers\<close>

definition wrap64 :: "int \<Rightarrow> int" where
  "wrap64 x = (x + 2 ^ 63) mod 2 ^ 64 - 2 ^ 63"

definition digitChars :: string where
  "digitChars = ''0123456789''"

definition isDigit :: "char \<Rightarrow> bool" where
  "isDigit c = (c \<in> set digitChars)"

definition digitValue :: "char \<Rightarrow> int" where
  "digitValue c = int (length (takeWhile (\<lambda>d. d \<noteq> c) digitChars))"

text \<open>\<open>strconv.Atoi\<close> on a string of decimal digits, with the error dropped as the caller
  drops it: the value, or the greatest \<open>int64\<close> when the value is out of range.\<close>

definition Atoi :: "string \<Rightarrow> int" where
  "Atoi s = min (2 ^ 63 - 1) (foldl (\<lambda>n c. 10 * n + digitValue c) 0 s)"

text \<open>\<open>%d\<close> of a positive number.\<close>

function itoa :: "nat \<Rightarrow> string" where
  "itoa n = (if n < 10 then [digitChars ! n] else itoa (n div 10) @ [digitChars ! (n mod 10)])"
  by pat_completeness auto
termination
  by (relation "measure (\<lambda>n. n)") auto

subsection \<open>regexp\<close>

text \<open>
  The expressions the analyzer matches file positions with are sequences of \<open>x\<close> and
  \<open>x+\<close> for character classes \<open>x\<close>.  Go returns the leftmost match, and among the matches
  at one start the one a backtracking search finds first, \<open>+\<close> taking as much as it
  can.  \<open>rx\<close> is that search at the start of the text: the text each item consumed.
  \<open>FindAll\<close> gives the successive matches that do not overlap.
\<close>

datatype item = One "char \<Rightarrow> bool" | Many1 "char \<Rightarrow> bool"

fun rx :: "item list \<Rightarrow> string \<Rightarrow> string list option" where
  "rx [] s = Some []"
| "rx (One p # r) [] = None"
| "rx (One p # r) (c # cs) = (if p c then map_option ((#) [c]) (rx r cs) else None)"
| "rx (Many1 p # r) [] = None"
| "rx (Many1 p # r) (c # cs) =
     (if p c
      then (case rx (Many1 p # r) cs of
              Some (g # gs) \<Rightarrow> Some ((c # g) # gs)
            | _ \<Rightarrow> map_option ((#) [c]) (rx r cs))
      else None)"

function FindAll :: "item list \<Rightarrow> string \<Rightarrow> string list list" where
  "FindAll re [] = []"
| "FindAll re (c # cs) =
     (case rx re (c # cs) of
        None \<Rightarrow> FindAll re cs
      | Some gs \<Rightarrow>
          (if concat gs = [] then gs # FindAll re cs
           else gs # FindAll re (drop (length (concat gs)) (c # cs))))"
  by pat_completeness auto
termination
  by (relation "measure (\<lambda>(re, s). length s)") auto

definition wordChars :: string where
  "wordChars = ''0123456789ABCDEFGHIJKLMNOPQRSTUVWXYZ_abcdefghijklmnopqrstuvwxyz''"

definition isWord :: "char \<Rightarrow> bool" where
  "isWord c = (c \<in> set wordChars)"

definition isPathChar :: "char \<Rightarrow> bool" where
  "isPathChar c = (isWord c \<or> c = CHR ''/'' \<or> c = CHR ''.'' \<or> c = CHR ''-'')"

text \<open>The expression \<^verbatim>\<open>([\w\/\.\-]+\.[\w]+):(\d+)\<close> of \<open>processStackTrace\<close>, and the submatches
  of one match: the whole match, the path and the line number.\<close>

definition fileLineRegex :: "item list" where
  "fileLineRegex = [Many1 isPathChar, One (\<lambda>c. c = CHR ''.''), Many1 isWord,
                    One (\<lambda>c. c = CHR '':''), Many1 isDigit]"

definition FindAllStringSubmatch :: "string \<Rightarrow> string list list" where
  "FindAllStringSubmatch s =
     map (\<lambda>gs. [concat gs, concat (take 3 gs), concat (drop 4 gs)]) (FindAll fileLineRegex s)"

section \<open>The code analyzer\<close>

record CodeAnalyzer =
  projectRoot :: string

text \<open>
  What the analyzer reads of its environment.  For a path, \<open>os.Stat\<close> fails because
  the path names no file (\<open>NoFile\<close>), fails with another error (\<open>StatFails\<close>: a path
  through a regular file, a directory that may not be searched, a name that is
  too long or holds a zero byte), or succeeds: for a directory, for a file that
  \<open>os.Open\<close> cannot open, or for a file with the lines a \<open>bufio.Scanner\<close> delivers.
  The expressions of \<open>inferFunctionName\<close> use alternatives and repetitions of groups;
  their matching is the library's and a parameter: the submatches of the first match,
  none without a match.  \<open>unicodeLower\<close> is the path of \<open>strings.ToLower\<close> for a string
  that is not ASCII.
\<close>

datatype FileEntry = NoFile | StatFails | Directory | Unreadable | Lines "string list"

datatype FuncPattern = GoFunc | JsFunc | PyFunc | CFunc | RbFunc | GenericFunc

record Env =
  readFile :: "string \<Rightarrow> FileEntry"
  FindStringSubmatch :: "FuncPattern \<Rightarrow> string \<Rightarrow> string list"
  unicodeLower :: "string \<Rightarrow> string"

text \<open>
  A function of the analyzer returns \<open>None\<close> when it panics on a nil pointer, which
  ends the call of \<open>HandleSpan\<close> before the store is touched.

  \<open>fileExists\<close> returns false only for the error \<open>os.IsNotExist\<close> recognises.  After any
  other error of \<open>os.Stat\<close> the \<open>FileInfo\<close> is nil, and \<open>info.IsDir()\<close> panics.
\<close>

definition fileExists :: "Env \<Rightarrow> string \<Rightarrow> bool option" where
  "fileExists env filename =
     (case readFile env filename of
        NoFile \<Rightarrow> Some False
      | StatFails \<Rightarrow> None
      | Directory \<Rightarrow> Some False
      | Unreadable \<Rightarrow> Some True
      | Lines ls \<Rightarrow> Some True)"

definition isFileInProject :: "CodeAnalyzer \<Rightarrow> string \<Rightarrow> bool" where
  "isFileInProject ca path = (if projectRoot ca = [] then True else HasPrefix path (projectRoot ca))"

text \<open>\<open>inferFunctionName\<close>: the pattern of the file's extension, and the first submatch
  that is not empty.\<close>

definition patternOf :: "string \<Rightarrow> FuncPattern" where
  "patternOf ext =
     (if ext = ''.go'' then GoFunc
      else if ext \<in> {''.js'', ''.ts'', ''.jsx'', ''.tsx''} then JsFunc
      else if ext = ''.py'' then PyFunc
      else if ext \<in> {''.java'', ''.kt'', ''.c'', ''.cpp'', ''.cc''} then CFunc
      else if ext = ''.rb'' then RbFunc
      else GenericFunc)"

definition inferFunctionName :: "Env \<Rightarrow> CodeSpanContext \<Rightarrow> CodeSpanContext" where
  "inferFunctionName env ctx =
     (if CodeSnapshot ctx = [] then ctx
      else (let ext = ToLower (unicodeLower env) (Ext (FilePath ctx));
                ms = FindStringSubmatch env (patternOf ext) (CodeSnapshot ctx)
            in if length ms > 1
               then (case filter (\<lambda>m. m \<noteq> []) (tl ms) of
                       [] \<Rightarrow> ctx
                     | m # _ \<Rightarrow> ctx\<lparr>FunctionName := m\<rparr>)
               else ctx))"

text \<open>Lines 400-411 of the analyzer: the numbered lines of the window, from five lines
  before its start.  \<open>lineNum\<close> is the number of the last line read.\<close>

fun scanLines :: "int \<Rightarrow> int \<Rightarrow> nat \<Rightarrow> string list \<Rightarrow> string list" where
  "scanLines lineStart lineEnd lineNum [] = []"
| "scanLines lineStart lineEnd lineNum (line # rest) =
     (let lineNum = lineNum + 1;
          codeLines = (if int lineNum \<ge> lineStart - 5 \<and> int lineNum \<le> lineEnd
                       then [itoa lineNum @ '': '' @ line] else [])
      in if int lineNum > lineEnd then codeLines
         else codeLines @ scanLines lineStart lineEnd lineNum rest)"

text \<open>\<open>enrichWithFileContents\<close> writes through the pointer it is given; here it returns
  the context as it leaves it.\<close>

definition enrichWithFileContents :: "Env \<Rightarrow> CodeSpanContext \<Rightarrow> CodeSpanContext option" where
  "enrichWithFileContents env ctx =
     (if FilePath ctx = [] then Some ctx
      else do {
        exists \<leftarrow> fileExists env (FilePath ctx);
        if \<not> exists then Some ctx
        else (case readFile env (FilePath ctx) of
                Lines ls \<Rightarrow>
                  (let ctx = (if LineStart ctx \<le> 0 then ctx\<lparr>LineStart := 1\<rparr> else ctx);
                       ctx = (if LineEnd ctx \<le> LineStart ctx
                              then ctx\<lparr>LineEnd := wrap64 (LineStart ctx + 20)\<rparr> else ctx);
                       ctx = (if wrap64 (LineEnd ctx - LineStart ctx) > 50
                              then ctx\<lparr>LineEnd := wrap64 (LineStart ctx + 50)\<rparr> else ctx);
                       ctx = ctx\<lparr>CodeSnapshot :=
                               Join (scanLines (LineStart ctx) (LineEnd ctx) 0 ls) [CHR 0x0A]\<rparr>
                   in Some (inferFunctionName env ctx))
              | _ \<Rightarrow> Some ctx)
      })"

text \<open>The operation heuristics.  The loop over the attributes reads the key of each
  attribute it reaches, through the pointer.\<close>

definition operationOfName :: "string \<Rightarrow> string option" where
  "operationOfName name =
     (if Contains name ''read'' \<or> Contains name ''get'' then Some ''read''
      else if Contains name ''write'' \<or> Contains name ''put'' \<or>
              Contains name ''save'' \<or> Contains name ''update'' then Some ''write''
      else if Contains name ''exec'' \<or> Contains name ''run'' then Some ''exec''
      else if Contains name ''delete'' \<or> Contains name ''remove'' then Some ''delete''
      else None)"

fun operationOfAttributes :: "Env \<Rightarrow> KeyValue option list \<Rightarrow> string option" where
  "operationOfAttributes env [] = Some ''unknown''"
| "operationOfAttributes env (None # attrs) = None"
| "operationOfAttributes env (Some attr # attrs) =
     (let attrKey = ToLower (unicodeLower env) (Key attr)
      in if (Contains attrKey ''operation'' \<or> Contains attrKey ''action'') \<and> GetStringValue attr \<noteq> []
         then Some (ToLower (unicodeLower env) (GetStringValue attr))
         else operationOfAttributes env attrs)"

definition inferOperationFromSpan :: "Env \<Rightarrow> Span \<Rightarrow> string option" where
  "inferOperationFromSpan env span =
     (case operationOfName (ToLower (unicodeLower env) (Name span)) of
        Some op \<Rightarrow> Some op
      | None \<Rightarrow> operationOfAttributes env (Attributes span))"

definition inferOperationFromEvent :: "Env \<Rightarrow> Span_Event \<Rightarrow> string option" where
  "inferOperationFromEvent env event =
     (let eventName = ToLower (unicodeLower env) (Name_ev event)
      in case operationOfName eventName of
           Some op \<Rightarrow> Some op
         | None \<Rightarrow>
             (if Contains eventName ''error'' \<or> Contains eventName ''exception'' then Some ''error''
              else operationOfAttributes env (Attributes_ev event)))"

text \<open>An attribute names a file when its key contains \<open>file\<close> or \<open>path\<close> and its value
  is an absolute path inside the project.\<close>

definition namesFile :: "Env \<Rightarrow> CodeAnalyzer \<Rightarrow> KeyValue \<Rightarrow> bool" where
  "namesFile env ca attr =
     ((Contains (ToLower (unicodeLower env) (Key attr)) ''file'' \<or>
       Contains (ToLower (unicodeLower env) (Key attr)) ''path'') \<and>
      GetStringValue attr \<noteq> [] \<and>
      IsAbs (GetStringValue attr) \<and> isFileInProject ca (GetStringValue attr))"

definition newContext :: CodeSpanContext where
  "newContext = \<lparr>FilePath = [], LineStart = 0, LineEnd = 0, FunctionName = [], SpanID = [],
     TraceID = [], Operation = [], CodeSnapshot = []\<rparr>"

text \<open>\<open>extractFilePathsFromSpan\<close>: the loop over the attributes of the span, and the
  function, which reads the attributes through the pointer to the span.\<close>

fun spanAttributes ::
  "Env \<Rightarrow> CodeAnalyzer \<Rightarrow> Span \<Rightarrow> KeyValue option list \<Rightarrow> CodeSpanContext list option" where
  "spanAttributes env ca span [] = Some []"
| "spanAttributes env ca span (None # attrs) = None"
| "spanAttributes env ca span (Some attr # attrs) =
     (if namesFile env ca attr
      then do {
        operation \<leftarrow> inferOperationFromSpan env span;
        context \<leftarrow> enrichWithFileContents env
          (newContext\<lparr>FilePath := GetStringValue attr,
                      SpanID := hex_EncodeToString (SpanId span),
                      TraceID := hex_EncodeToString (TraceId span),
                      Operation := operation\<rparr>);
        contexts \<leftarrow> spanAttributes env ca span attrs;
        Some (context # contexts)
      }
      else spanAttributes env ca span attrs)"

definition extractFilePathsFromSpan ::
  "Env \<Rightarrow> CodeAnalyzer \<Rightarrow> Span option \<Rightarrow> CodeSpanContext list option" where
  "extractFilePathsFromSpan env ca span =
     (case span of
        None \<Rightarrow> None
      | Some sp \<Rightarrow> spanAttributes env ca sp (Attributes sp))"

text \<open>\<open>extractFilePathsFromEvent\<close>, and \<open>processStackTrace\<close> below, are called for an
  event whose name \<open>AnalyzeSpan\<close> has read, so for an event that is not nil.\<close>

fun eventAttributes ::
  "Env \<Rightarrow> CodeAnalyzer \<Rightarrow> Span_Event \<Rightarrow> KeyValue option list \<Rightarrow> CodeSpanContext list option" where
  "eventAttributes env ca event [] = Some []"
| "eventAttributes env ca event (None # attrs) = None"
| "eventAttributes env ca event (Some attr # attrs) =
     (if namesFile env ca attr
      then do {
        operation \<leftarrow> inferOperationFromEvent env event;
        context \<leftarrow> enrichWithFileContents env
          (newContext\<lparr>FilePath := GetStringValue attr, Operation := operation\<rparr>);
        contexts \<leftarrow> eventAttributes env ca event attrs;
        Some (context # contexts)
      }
      else eventAttributes env ca event attrs)"

definition extractFilePathsFromEvent ::
  "Env \<Rightarrow> CodeAnalyzer \<Rightarrow> Span_Event \<Rightarrow> CodeSpanContext list option" where
  "extractFilePathsFromEvent env ca event = eventAttributes env ca event (Attributes_ev event)"

text \<open>\<open>processStackTrace\<close>.  The stack trace is the value of the first attribute with the
  key \<open>stack_trace\<close> or \<open>stacktrace\<close>; the loop that looks for it ends there.\<close>

fun stackTraceOf :: "Env \<Rightarrow> KeyValue option list \<Rightarrow> string option" where
  "stackTraceOf env [] = Some []"
| "stackTraceOf env (None # attrs) = None"
| "stackTraceOf env (Some attr # attrs) =
     (if ToLower (unicodeLower env) (Key attr) = ''stack_trace'' \<or>
         ToLower (unicodeLower env) (Key attr) = ''stacktrace''
      then Some (GetStringValue attr)
      else stackTraceOf env attrs)"

definition contextOfMatch ::
  "Env \<Rightarrow> CodeAnalyzer \<Rightarrow> string list \<Rightarrow> CodeSpanContext list option" where
  "contextOfMatch env ca m =
     (if length m \<ge> 3
      then (let filePath = m ! 1;
                lineNum = Atoi (m ! 2);
                filePath = (if \<not> IsAbs filePath then filepath_Join (projectRoot ca) filePath
                            else filePath)
            in if isFileInProject ca filePath
               then do {
                 context \<leftarrow> enrichWithFileContents env
                   (newContext\<lparr>FilePath := filePath, LineStart := lineNum,
                               LineEnd := wrap64 (lineNum + 10), Operation := ''exception''\<rparr>);
                 Some [context]
               }
               else Some [])
      else Some [])"

fun stackMatches ::
  "Env \<Rightarrow> CodeAnalyzer \<Rightarrow> string list list \<Rightarrow> CodeSpanContext list option" where
  "stackMatches env ca [] = Some []"
| "stackMatches env ca (m # ms) =
     do {
       context \<leftarrow> contextOfMatch env ca m;
       contexts \<leftarrow> stackMatches env ca ms;
       Some (context @ contexts)
     }"

definition processStackTrace ::
  "Env \<Rightarrow> CodeAnalyzer \<Rightarrow> Span_Event \<Rightarrow> CodeSpanContext list option" where
  "processStackTrace env ca event =
     do {
       stackTrace \<leftarrow> stackTraceOf env (Attributes_ev event);
       if stackTrace = [] then Some []
       else stackMatches env ca (FindAllStringSubmatch stackTrace)
     }"

text \<open>\<open>AnalyzeSpan\<close>: the body of its loop for one event, the loop, and the function.\<close>

definition analyzeEvent ::
  "Env \<Rightarrow> CodeAnalyzer \<Rightarrow> Span_Event option \<Rightarrow> CodeSpanContext list option" where
  "analyzeEvent env ca event =
     (case event of
        None \<Rightarrow> None
      | Some ev \<Rightarrow>
          do {
            stackTraceContexts \<leftarrow>
              (if Name_ev ev = ''exception'' \<or>
                  Contains (ToLower (unicodeLower env) (Name_ev ev)) ''error''
               then processStackTrace env ca ev else Some []);
            fileOpContexts \<leftarrow> extractFilePathsFromEvent env ca ev;
            Some (stackTraceContexts @ fileOpContexts)
          })"

fun analyzeEvents ::
  "Env \<Rightarrow> CodeAnalyzer \<Rightarrow> Span_Event option list \<Rightarrow> CodeSpanContext list option" where
  "analyzeEvents env ca [] = Some []"
| "analyzeEvents env ca (event # events) =
     do {
       context \<leftarrow> analyzeEvent env ca event;
       contexts \<leftarrow> analyzeEvents env ca events;
       Some (context @ contexts)
     }"

definition AnalyzeSpan ::
  "Env \<Rightarrow> CodeAnalyzer \<Rightarrow> Span option \<Rightarrow> Span_Event option list \<Rightarrow> CodeSpanContext list option" where
  "AnalyzeSpan env ca span events =
     do {
       fileContexts \<leftarrow> extractFilePathsFromSpan env ca span;
       contexts \<leftarrow> analyzeEvents env ca events;
       Some (fileContexts @ contexts)
     }"

subsection \<open>HandleSpan (mcpserver.go)\<close>

text \<open>The span object that \<open>HandleSpan\<close> builds, with the contexts of the analyzer.
  \<open>int64(x)\<close> of a \<open>uint64\<close> reads the same bits as a signed number.\<close>

definition newSpanData :: "Span \<Rightarrow> Span_Event option list \<Rightarrow> CodeSpanContext list \<Rightarrow> SpanData" where
  "newSpanData span events contexts =
     \<lparr>SpanProto = Some span, Events = events,
      ParentID = hex_EncodeToString (ParentSpanId span),
      Children = [],
      FileContexts = contexts,
      StartTime = sint (StartTimeUnixNano span),
      EndTime = sint (EndTimeUnixNano span),
      Duration = Time_Sub (sint (EndTimeUnixNano span)) (sint (StartTimeUnixNano span))\<rparr>"

text \<open>\<open>HandleSpan\<close> reads the span through its pointer, runs the analyzer, and hands the
  object, at an address \<open>p\<close> that the allocator chooses, to the store.  The
  notification of the websocket clients does not touch the store and is left out;
  the callback returns \<open>false\<close>.\<close>

definition HandleSpan ::
  "Env \<Rightarrow> CodeAnalyzer \<Rightarrow> Sweep \<Rightarrow> addr \<Rightarrow> Span option \<Rightarrow> Span_Event option list \<Rightarrow> World
     \<Rightarrow> World option" where
  "HandleSpan env ca sw p span events w =
     (case span of
        None \<Rightarrow> None
      | Some sp \<Rightarrow>
          do {
            contexts \<leftarrow> AnalyzeSpan env ca span events;
            AddSpan sw (Some p) (w\<lparr>heap := (heap w)(p := newSpanData sp events contexts)\<rparr>)
          })"

text \<open>A run of the callback: the spans in the order they are delivered, up to the
  first call that panics.\<close>

fun HandleSpans ::
  "Env \<Rightarrow> CodeAnalyzer \<Rightarrow> (Sweep \<times> addr \<times> Span option \<times> Span_Event option list) list \<Rightarrow> World
     \<Rightarrow> World option" where
  "HandleSpans env ca [] w = Some w"
| "HandleSpans env ca ((sw, p, span, events) # rest) w =
     (case HandleSpan env ca sw p span events w of
        None \<Rightarrow> None
      | Some w' \<Rightarrow> HandleSpans env ca rest w')"

subsection \<open>Quantities the properties of the analyzer speak about\<close>

text \<open>A span and its events without a nil pointer among the events and among the
  attributes.\<close>

definition noNil :: "Span \<Rightarrow> Span_Event option list \<Rightarrow> bool" where
  "noNil span events =
     (list_all (\<lambda>attr. attr \<noteq> None) (Attributes span) \<and>
      list_all (\<lambda>event. case event of
                          None \<Rightarrow> False
                        | Some ev \<Rightarrow> list_all (\<lambda>attr. attr \<noteq> None) (Attributes_ev ev)) events)"

section \<open>The OTLP server over HTTP (otlpserver)\<close>

text \<open>The wire messages, as far as the server unwraps them.  The getters the loops
  use return no elements for a nil message, so a nil resource or scope is one without
  elements; a nil span or log record is handed to the callback as it is.\<close>

record ScopeSpans =
  Spans_ss :: "Span option list"

record ResourceSpans =
  ScopeSpans_rs :: "ScopeSpans list"

record LogRecord =
  Body_lr :: string

record ScopeLogs =
  LogRecords :: "LogRecord option list"

record ResourceLogs =
  ScopeLogs_rl :: "ScopeLogs list"

text \<open>
  A callback runs code of the application: it takes the state of the application
  to a new state and says whether the server should stop.  The second component of
  the state a loop threads counts the calls.
\<close>

type_synonym 's TraceCallback =
  "Span option \<Rightarrow> Span_Event option list \<Rightarrow> ResourceSpans \<Rightarrow> (string \<rightharpoonup> string) \<Rightarrow> (string \<rightharpoonup> string) \<Rightarrow> 's \<Rightarrow> bool \<times> 's"

type_synonym 's LogCallback =
  "LogRecord option \<Rightarrow> ResourceLogs \<Rightarrow> (string \<rightharpoonup> string) \<Rightarrow> (string \<rightharpoonup> string) \<Rightarrow> 's \<Rightarrow> bool \<times> 's"

text \<open>\<open>doCallback\<close> (server.go): the three nested loops; the first callback that returns
  true ends all of them.  \<open>GetEvents\<close> of a nil span is no events.\<close>

definition GetEvents :: "Span option \<Rightarrow> Span_Event option list" where
  "GetEvents span = (case span of None \<Rightarrow> [] | Some sp \<Rightarrow> Events_sp sp)"

fun spansLoop ::
  "'s TraceCallback \<Rightarrow> ResourceSpans \<Rightarrow> (string \<rightharpoonup> string) \<Rightarrow> (string \<rightharpoonup> string) \<Rightarrow> Span option list
     \<Rightarrow> 's \<times> nat \<Rightarrow> bool \<times> 's \<times> nat" where
  "spansLoop cb resource headers serverMeta [] st = (False, st)"
| "spansLoop cb resource headers serverMeta (span # spans) st =
     (case cb span (GetEvents span) resource headers serverMeta (fst st) of
        (done, app) \<Rightarrow>
          if done then (True, app, snd st + 1)
          else spansLoop cb resource headers serverMeta spans (app, snd st + 1))"

fun scopesLoop ::
  "'s TraceCallback \<Rightarrow> ResourceSpans \<Rightarrow> (string \<rightharpoonup> string) \<Rightarrow> (string \<rightharpoonup> string) \<Rightarrow> ScopeSpans list
     \<Rightarrow> 's \<times> nat \<Rightarrow> bool \<times> 's \<times> nat" where
  "scopesLoop cb resource headers serverMeta [] st = (False, st)"
| "scopesLoop cb resource headers serverMeta (ss # scopeSpans) st =
     (case spansLoop cb resource headers serverMeta (Spans_ss ss) st of
        (done, st') \<Rightarrow>
          if done then (True, st') else scopesLoop cb resource headers serverMeta scopeSpans st')"

fun doCallback ::
  "'s TraceCallback \<Rightarrow> ResourceSpans list \<Rightarrow> (string \<rightharpoonup> string) \<Rightarrow> (string \<rightharpoonup> string)
     \<Rightarrow> 's \<times> nat \<Rightarrow> bool \<times> 's \<times> nat" where
  "doCallback cb [] headers serverMeta st = (False, st)"
| "doCallback cb (resource # rss) headers serverMeta st =
     (case scopesLoop cb resource headers serverMeta (ScopeSpans_rs resource) st of
        (done, st') \<Rightarrow> if done then (True, st') else doCallback cb rss headers serverMeta st')"

text \<open>\<open>doLogCallback\<close>, in the same way.\<close>

fun logsLoop ::
  "'s LogCallback \<Rightarrow> ResourceLogs \<Rightarrow> (string \<rightharpoonup> string) \<Rightarrow> (string \<rightharpoonup> string) \<Rightarrow> LogRecord option list
     \<Rightarrow> 's \<times> nat \<Rightarrow> bool \<times> 's \<times> nat" where
  "logsLoop cb resource headers serverMeta [] st = (False, st)"
| "logsLoop cb resource headers serverMeta (logRecord # logRecords) st =
     (case cb logRecord resource headers serverMeta (fst st) of
        (done, app) \<Rightarrow>
          if done then (True, app, snd st + 1)
          else logsLoop cb resource headers serverMeta logRecords (app, snd st + 1))"

fun scopeLogsLoop ::
  "'s LogCallback \<Rightarrow> ResourceLogs \<Rightarrow> (string \<rightharpoonup> string) \<Rightarrow> (string \<rightharpoonup> string) \<Rightarrow> ScopeLogs list
     \<Rightarrow> 's \<times> nat \<Rightarrow> bool \<times> 's \<times> nat" where
  "scopeLogsLoop cb resource headers serverMeta [] st = (False, st)"
| "scopeLogsLoop cb resource headers serverMeta (sl # scopeLogs) st =
     (case logsLoop cb resource headers serverMeta (LogRecords sl) st of
        (done, st') \<Rightarrow>
          if done then (True, st') else scopeLogsLoop cb resource headers serverMeta scopeLogs st')"

fun doLogCallback ::
  "'s LogCallback \<Rightarrow> ResourceLogs list \<Rightarrow> (string \<rightharpoonup> string) \<Rightarrow> (string \<rightharpoonup> string)
     \<Rightarrow> 's \<times> nat \<Rightarrow> bool \<times> 's \<times> nat" where
  "doLogCallback cb [] headers serverMeta st = (False, st)"
| "doLogCallback cb (resource # rls) headers serverMeta st =
     (case scopeLogsLoop cb resource headers serverMeta (ScopeLogs_rl resource) st of
        (done, st') \<Rightarrow> if done then (True, st') else doLogCallback cb rls headers serverMeta st')"

subsection \<open>The HTTP backend\<close>

text \<open>
  A request as \<open>net/http\<close> hands it to the handler, with the keys of its header in
  canonical form.  \<open>Body\<close> is what \<open>io.ReadAll\<close> returns: the bytes, or \<open>None\<close> for an
  error.  \<open>Header.Get\<close> is the first value of a key, or the empty string.
\<close>

record Request =
  Method :: string
  Proto :: string
  Host :: string
  RequestURI :: string
  Header :: "string \<rightharpoonup> string list"
  Body :: "8 word list option"

definition Header_Get :: "(string \<rightharpoonup> string list) \<Rightarrow> string \<Rightarrow> string" where
  "Header_Get h key = (case h key of None \<Rightarrow> [] | Some [] \<Rightarrow> [] | Some (v # _) \<Rightarrow> v)"

text \<open>\<open>NewHttpServer\<close> keeps the trace callback and drops its second argument, the
  function to call at shutdown: the server has no field for it.\<close>

record 's HttpServer =
  traceCallback :: "'s TraceCallback"
  logCallback :: "'s LogCallback option"

definition NewHttpServer :: "'s TraceCallback \<Rightarrow> ('s \<Rightarrow> 's) \<Rightarrow> 's HttpServer" where
  "NewHttpServer cb stop = \<lparr>traceCallback = cb, logCallback = None\<rparr>"

definition SetLogCallback :: "'s LogCallback \<Rightarrow> 's HttpServer \<Rightarrow> 's HttpServer" where
  "SetLogCallback cb hs = hs\<lparr>logCallback := Some cb\<rparr>"

text \<open>
  What serving one request does: \<open>log.Fatalf\<close> ends the process, or the handler
  returns with a status code (200 when it wrote none), the state of the application,
  the number of callbacks it ran, and whether it started \<open>StopWait\<close>.  The decoders
  \<open>proto.Unmarshal\<close> and \<open>json.Unmarshal\<close> are the library's and parameters; a failed
  decoding leaves the message as far as it was filled.
\<close>

datatype 's Served = Fatal | Responded nat 's nat bool

record Decoders =
  protoTraces :: "8 word list \<Rightarrow> ResourceSpans list"
  jsonTraces :: "8 word list \<Rightarrow> ResourceSpans list"
  protoLogs :: "8 word list \<Rightarrow> ResourceLogs list"
  jsonLogs :: "8 word list \<Rightarrow> ResourceLogs list"

definition requestMeta :: "Request \<Rightarrow> (string \<rightharpoonup> string)" where
  "requestMeta req =
     [''method'' \<mapsto> Method req, ''proto'' \<mapsto> Proto req,
      ''content-type'' \<mapsto> Header_Get (Header req) ''Content-Type'',
      ''host'' \<mapsto> Host req, ''uri'' \<mapsto> RequestURI req]"

definition requestHeaders :: "Request \<Rightarrow> (string \<rightharpoonup> string)" where
  "requestHeaders req = (\<lambda>k. if Header req k = None then None else Some (Header_Get (Header req) k))"

definition StatusOK :: nat where "StatusOK = 200"

definition StatusNotAcceptable :: nat where "StatusNotAcceptable = 406"

definition handleTraces :: "Decoders \<Rightarrow> 's HttpServer \<Rightarrow> Request \<Rightarrow> 's \<Rightarrow> 's Served" where
  "handleTraces dec hs req app =
     (case Body req of
        None \<Rightarrow> Fatal
      | Some data \<Rightarrow>
          (let contentType = Header_Get (Header req) ''Content-Type'';
               msg = (if contentType = ''application/x-protobuf'' then Some (protoTraces dec data)
                      else if contentType = ''application/json'' then Some (jsonTraces dec data)
                      else None)
           in case msg of
                None \<Rightarrow> Responded StatusNotAcceptable app 0 False
              | Some msg \<Rightarrow>
                  (case doCallback (traceCallback hs) msg (requestHeaders req) (requestMeta req) (app, 0) of
                     (done, app', calls) \<Rightarrow> Responded StatusOK app' calls done)))"

definition handleLogs :: "Decoders \<Rightarrow> 's HttpServer \<Rightarrow> Request \<Rightarrow> 's \<Rightarrow> 's Served" where
  "handleLogs dec hs req app =
     (case logCallback hs of
        None \<Rightarrow> Responded StatusOK app 0 False
      | Some cb \<Rightarrow>
          (case Body req of
             None \<Rightarrow> Fatal
           | Some data \<Rightarrow>
               (let contentType = Header_Get (Header req) ''Content-Type'';
                    msg = (if contentType = ''application/x-protobuf'' then Some (protoLogs dec data)
                           else if contentType = ''application/json'' then Some (jsonLogs dec data)
                           else None)
                in case msg of
                     None \<Rightarrow> Responded StatusNotAcceptable app 0 False
                   | Some msg \<Rightarrow>
                       (case doLogCallback cb msg (requestHeaders req) (requestMeta req) (app, 0) of
                          (done, app', calls) \<Rightarrow> Responded StatusOK app' calls done))))"

definition ServeHTTP :: "Decoders \<Rightarrow> 's HttpServer \<Rightarrow> Request \<Rightarrow> 's \<Rightarrow> 's Served" where
  "ServeHTTP dec hs req app =
     (if RequestURI req = ''/v1/traces'' then handleTraces dec hs req app
      else if RequestURI req = ''/v1/logs'' then handleLogs dec hs req app
      else handleTraces dec hs req app)"

text \<open>
  \<open>Stop\<close> and \<open>StopWait\<close> of the HTTP backend are one call each into \<open>net/http\<close>; the
  process state they act on is the state of the application and the calls that
  \<open>http.Server\<close> has received.
\<close>

record 's Process =
  application :: 's
  closeCalls :: nat
  shutdownCalls :: nat

definition Stop :: "'s HttpServer \<Rightarrow> 's Process \<Rightarrow> 's Process" where
  "Stop hs pr = pr\<lparr>closeCalls := closeCalls pr + 1\<rparr>"

definition StopWait :: "'s HttpServer \<Rightarrow> 's Process \<Rightarrow> 's Process" where
  "StopWait hs pr = pr\<lparr>shutdownCalls := shutdownCalls pr + 1\<rparr>"

section \<open>Example data\<close>

text \<open>Three span objects of the trace \<open>01\<close>: at address 1 the root span \<open>01\<close>, at
  address 2 its child \<open>02\<close>, and everywhere else a second delivery of the root span.\<close>

definition exSpan :: "8 word \<Rightarrow> 8 word \<Rightarrow> 8 word list \<Rightarrow> Span" where
  "exSpan t s parent = \<lparr>TraceId = [t], SpanId = [s], ParentSpanId = parent, Name = ''op'',
     Attributes = [], Events_sp = [], StartTimeUnixNano = 0, EndTimeUnixNano = 0\<rparr>"

definition exData :: "Span \<Rightarrow> SpanData" where
  "exData span = \<lparr>SpanProto = Some span, Events = [],
     ParentID = hex_EncodeToString (ParentSpanId span),
     Children = [], FileContexts = [], StartTime = 0, EndTime = 0, Duration = 0\<rparr>"

definition exHeap :: "addr \<Rightarrow> SpanData" where
  "exHeap a = (if a = 1 then exData (exSpan 1 1 [])
               else if a = 2 then exData (exSpan 1 2 [1])
               else exData (exSpan 1 1 []))"

definition exWorld :: "int \<Rightarrow> Duration \<Rightarrow> World" where
  "exWorld mx ret = \<lparr>heap = exHeap,
     store = \<lparr>traces = Map.empty, spansByFile = Map.empty, maxSpans = mx, retention = ret\<rparr>\<rparr>"

definition exSweep :: "Time \<Rightarrow> string list \<Rightarrow> Sweep" where
  "exSweep t order = \<lparr>now = t, order1 = order, order2 = order, fileOrder = (\<lambda>_. [])\<rparr>"

text \<open>A store with a limit of ten spans, filled by ten calls: first the span \<open>01\<close>
  of the trace \<open>0a\<close>, which ends at 100, then the spans \<open>01\<close> to \<open>09\<close> of the trace \<open>0b\<close>,
  which end at 200.  The object at address 11 is the span \<open>01\<close> of a third trace \<open>0c\<close>
  and ends at 300.\<close>

definition exDataAt :: "Span \<Rightarrow> Time \<Rightarrow> SpanData" where
  "exDataAt span t = (exData span)\<lparr>StartTime := t, EndTime := t\<rparr>"

definition ex10Heap :: "addr \<Rightarrow> SpanData" where
  "ex10Heap a = (if a = 1 then exDataAt (exSpan 10 1 []) 100
                 else if a \<le> 10 then exDataAt (exSpan 11 (of_nat (a - 1)) []) 200
                 else exDataAt (exSpan 12 1 []) 300)"

definition exFirstTen :: "(Sweep \<times> addr option) list" where
  "exFirstTen = (exSweep 100 [''0a''], Some 1) #
                map (\<lambda>a. (exSweep 200 [''0a'', ''0b''], Some a)) [2 ..< 11]"

definition exTen :: World where
  "exTen = the (AddSpans exFirstTen \<lparr>heap = ex10Heap,
     store = \<lparr>traces = Map.empty, spansByFile = Map.empty, maxSpans = 10, retention = 0\<rparr>\<rparr>)"

definition exSweep10 :: Sweep where
  "exSweep10 = \<lparr>now = 400, order1 = [''0c'', ''0a'', ''0b''], order2 = [''0b'', ''0c'', ''0a''],
     fileOrder = (\<lambda>_. [])\<rparr>"

text \<open>A store of four traces for a search, filled by four calls: the spans of \<open>0a\<close>
  and \<open>0d\<close> have an error on \<open>/p/a.go\<close>, the span of \<open>0b\<close> reads that file, the span of
  \<open>0c\<close> has an exception on another file.  The request asks for at most one trace
  with errors on \<open>/p/a.go\<close>.\<close>

definition exContext :: "string \<Rightarrow> string \<Rightarrow> string \<Rightarrow> CodeSpanContext" where
  "exContext tid file op = newContext\<lparr>FilePath := file, SpanID := ''01'', TraceID := tid, Operation := op\<rparr>"

definition exSearchHeap :: "addr \<Rightarrow> SpanData" where
  "exSearchHeap a =
     (if a = 1 then (exData (exSpan 10 1 []))\<lparr>FileContexts := [exContext ''0a'' ''/p/a.go'' ''error'']\<rparr>
      else if a = 2 then (exData (exSpan 11 1 []))\<lparr>FileContexts := [exContext ''0b'' ''/p/a.go'' ''read'']\<rparr>
      else if a = 3 then (exData (exSpan 12 1 []))\<lparr>FileContexts := [exContext ''0c'' ''/p/b.go'' ''exception'']\<rparr>
      else (exData (exSpan 13 1 []))\<lparr>FileContexts := [exContext ''0d'' ''/p/a.go'' ''error'']\<rparr>)"

definition exSearchWorld :: World where
  "exSearchWorld = the (AddSpans [(exSweep 0 [], Some 1), (exSweep 0 [], Some 2), (exSweep 0 [], Some 3),
                                  (exSweep 0 [], Some 4)]
     \<lparr>heap = exSearchHeap,
      store = \<lparr>traces = Map.empty, spansByFile = Map.empty, maxSpans = 0, retention = 0\<rparr>\<rparr>)"

definition exSearch :: Search where
  "exSearch = \<lparr>now_s = 500, traceOrder = [''0b'', ''0c'', ''0d'', ''0a''],
     filterOrder = (\<lambda>tid. if tid = ''0c'' then [''/p/b.go''] else [''/p/a.go'']),
     digestOrder = (\<lambda>tid. if tid = ''0c'' then [''/p/b.go''] else [''/p/a.go'']),
     spanOrder = (\<lambda>_ _. [''01''])\<rparr>"

definition exRequest :: SearchRequest where
  "exRequest = \<lparr>Query = [], Files_rq = [''/p/a.go''], TimeRange = [], ErrorsOnly = True, Limit = 1\<rparr>"

text \<open>The event of the stack trace scenario, an environment without files, and an
  event that names a file of the project \<open>/p\<close> in an attribute.  The context the
  analyzer builds for that attribute is \<open>exIoContext\<close>.  A second span, of the trace
  \<open>02\<close>, ends two hours after the epoch, and the sweep of its arrival runs then.  The
  strings of the examples are ASCII, so that \<open>unicodeLower\<close> is never called.\<close>

definition exEvent :: Span_Event where
  "exEvent = \<lparr>Name_ev = ''exception'',
     Attributes_ev = [Some \<lparr>Key = ''stack_trace'', Value = Some (StringValue ''handler.go:42: nil pointer'')\<rparr>]\<rparr>"

definition exEnv :: Env where
  "exEnv = \<lparr>readFile = (\<lambda>_. NoFile), FindStringSubmatch = (\<lambda>_ _. []), unicodeLower = (\<lambda>s. s)\<rparr>"

definition exCa :: CodeAnalyzer where
  "exCa = \<lparr>projectRoot = ''/p''\<rparr>"

definition exIoEvent :: Span_Event where
  "exIoEvent = \<lparr>Name_ev = ''io'',
     Attributes_ev = [Some \<lparr>Key = ''code.filepath'', Value = Some (StringValue ''/p/a.go'')\<rparr>]\<rparr>"

definition exIoContext :: CodeSpanContext where
  "exIoContext = newContext\<lparr>FilePath := ''/p/a.go'', Operation := ''unknown''\<rparr>"

definition exLateSpan :: Span where
  "exLateSpan = (exSpan 2 1 [])\<lparr>StartTimeUnixNano := 7200000000000, EndTimeUnixNano := 7200000000000\<rparr>"

definition exLateSweep :: Sweep where
  "exLateSweep = \<lparr>now = 7200000000000, order1 = [''01'', ''02''], order2 = [''02'', ''01''],
     fileOrder = (\<lambda>_. [''/p/a.go''])\<rparr>"

text \<open>The span \<open>01\<close> of the trace \<open>0a\<close> with an attribute that names the file \<open>/p/b.go\<close>,
  and the context the analyzer builds for that attribute.\<close>

definition exFileSpan :: Span where
  "exFileSpan = (exSpan 10 1 [])\<lparr>Attributes :=
     [Some \<lparr>Key = ''code.filepath'', Value = Some (StringValue ''/p/b.go'')\<rparr>]\<rparr>"

definition exFileContext :: CodeSpanContext where
  "exFileContext = newContext\<lparr>FilePath := ''/p/b.go'', SpanID := ''01'', TraceID := ''0a'',
     Operation := ''unknown''\<rparr>"

text \<open>The context of the stack trace scenario in the project \<open>/p\<close>.\<close>

definition exStackContext :: CodeSpanContext where
  "exStackContext = newContext\<lparr>FilePath := ''/p/handler.go'', LineStart := 42, LineEnd := 52,
     Operation := ''exception''\<rparr>"

text \<open>An environment in which the project root \<open>/etc/passwd\<close> is a regular file: a
  path through it names no file, and \<open>os.Stat\<close> fails with \<open>ENOTDIR\<close>.\<close>

definition exFileRootEnv :: Env where
  "exFileRootEnv = \<lparr>readFile = (\<lambda>f. if f = ''/etc/passwd'' then Lines [''root:x:0:0'']
                                    else if HasPrefix f ''/etc/passwd/'' then StatFails
                                    else NoFile),
                    FindStringSubmatch = (\<lambda>_ _. []), unicodeLower = (\<lambda>s. s)\<rparr>"

text \<open>An HTTP backend whose trace callback counts its calls in the state of the
  application, decoders that find one span or one log record in every body, and a
  request with a given path and content type.\<close>

definition exCallback :: "nat TraceCallback" where
  "exCallback span events resource headers serverMeta app = (False, Suc app)"

definition exDecoders :: Decoders where
  "exDecoders = \<lparr>protoTraces = (\<lambda>_. [\<lparr>ScopeSpans_rs = [\<lparr>Spans_ss = [Some (exSpan 1 1 [])]\<rparr>]\<rparr>]),
                  jsonTraces = (\<lambda>_. [\<lparr>ScopeSpans_rs = [\<lparr>Spans_ss = [Some (exSpan 1 1 [])]\<rparr>]\<rparr>]),
                  protoLogs = (\<lambda>_. [\<lparr>ScopeLogs_rl = [\<lparr>LogRecords = [Some \<lparr>Body_lr = ''hello''\<rparr>]\<rparr>]\<rparr>]),
                  jsonLogs = (\<lambda>_. [\<lparr>ScopeLogs_rl = [\<lparr>LogRecords = [Some \<lparr>Body_lr = ''hello''\<rparr>]\<rparr>]\<rparr>])\<rparr>"

definition exRequestTo :: "string \<Rightarrow> string \<Rightarrow> Request" where
  "exRequestTo uri contentType = \<lparr>Method = ''POST'', Proto = ''HTTP/1.1'', Host = ''localhost:4318'',
     RequestURI = uri, Header = [''Content-Type'' \<mapsto> [contentType]], Body = Some [1, 2, 3]\<rparr>"

section \<open>Properties of the store\<close>

subsection \<open>Evaluation\<close>

lemmas store_defs =
  AddSpan_def insertSpan_def getOrCreate_def putSpan_def linkSpan_def indexContext_def
  cleanupOldTraces_def markedForRemoval_def sizePass_def retentionPass_def retentionStep_def
  removeTrace_def unindexFile_def range_map_def slice_at_def len_map_def
  Time_Sub_def minDuration_def maxDuration_def GetSpan_def GetTrace_def
  spanAfter_def childrenAfter_def Let_def

lemmas example_defs = exWorld_def exHeap_def exData_def exSpan_def exSweep_def

lemma hex_examples [simp]:
  "hex_EncodeToString [1] = ''01''" "hex_EncodeToString [2] = ''02''" "hex_EncodeToString [] = []"
  by (simp_all add: hex_EncodeToString_def hexdigit_def)

subsection \<open>What \<open>AddSpan\<close> writes before the sweep\<close>

lemma indexContext_Spans [simp]: "Spans (snd (indexContext c s)) = Spans (snd s)"
  by (simp add: indexContext_def Let_def case_prod_beta)

lemma fold_indexContext_Spans [simp]: "Spans (snd (fold indexContext cs s)) = Spans (snd s)"
  by (induction cs arbitrary: s) simp_all

lemma linkSpan_Spans [simp]: "Spans (snd (linkSpan sid p sd s)) = Spans (snd s)"
  by (simp add: linkSpan_def case_prod_beta split: option.splits)

lemma putSpan_Spans [simp]: "Spans (putSpan sid p sd t) = (Spans t)(sid \<mapsto> p)"
  by (simp add: putSpan_def Let_def)

lemma getOrCreate_Spans:
  "Spans (getOrCreate tid sd st) = (case traces st tid of None \<Rightarrow> Map.empty | Some t \<Rightarrow> Spans t)"
  by (simp add: getOrCreate_def split: option.splits)

lemma insertSpan_traces_other:
  "k \<noteq> hex_EncodeToString (TraceId proto) \<Longrightarrow>
   traces (store (insertSpan p proto w)) k = traces (store w) k"
  unfolding insertSpan_def Let_def
  by (simp add: case_prod_beta)

lemma insertSpan_dom:
  "dom (traces (store (insertSpan p proto w))) =
     insert (hex_EncodeToString (TraceId proto)) (dom (traces (store w)))"
  unfolding insertSpan_def Let_def
  by (simp add: case_prod_beta)

lemma insertSpan_stored:
  "GetSpan (insertSpan p proto w) k s =
     (if k = hex_EncodeToString (TraceId proto) \<and> s = hex_EncodeToString (SpanId proto)
      then Some p else GetSpan w k s)"
  unfolding insertSpan_def Let_def GetSpan_def
  by (simp add: case_prod_beta getOrCreate_Spans split: option.splits)

lemma linkSpan_heap:
  "fst (linkSpan sid p sd s) =
     (if ParentID sd = [] \<or> ParentID sd = ''0000000000000000'' then fst s
      else (case Spans (snd s) (ParentID sd) of
              None \<Rightarrow> fst s
            | Some q \<Rightarrow> (fst s)(q := (fst s q)\<lparr>Children := Children (fst s q) @ [sid]\<rparr>)))"
  by (simp add: linkSpan_def case_prod_beta split: option.splits)

lemma insertSpan_heap:
  "heap (insertSpan p proto w) =
    (if ParentID (heap w p) = [] \<or> ParentID (heap w p) = ''0000000000000000'' then heap w
     else (case GetSpan (insertSpan p proto w) (hex_EncodeToString (TraceId proto))
                  (ParentID (heap w p)) of
        None \<Rightarrow> heap w
      | Some q \<Rightarrow> (heap w)(q := (heap w q)\<lparr>Children :=
                      Children (heap w q) @ [hex_EncodeToString (SpanId proto)]\<rparr>)))"
  unfolding insertSpan_def Let_def GetSpan_def
  by (simp add: case_prod_beta linkSpan_heap getOrCreate_Spans split: option.splits)

lemma insertSpan_limits:
  "maxSpans (store (insertSpan p proto w)) = maxSpans (store w) \<and>
   retention (store (insertSpan p proto w)) = retention (store w)"
  unfolding insertSpan_def Let_def by (simp add: case_prod_beta)

lemma insertSpan_SpanProto [simp]:
  "SpanProto (heap (insertSpan p proto w) a) = SpanProto (heap w a)"
  by (simp add: insertSpan_heap split: option.splits)

lemma insertSpan_ParentID [simp]:
  "ParentID (heap (insertSpan p proto w) a) = ParentID (heap w a)"
  by (simp add: insertSpan_heap split: option.splits)

lemma indexContext_fst:
  "slice_at (fst (indexContext c s)) f = slice_at (fst s) f @ (if FilePath c = f then [c] else [])"
  by (simp add: indexContext_def Let_def case_prod_beta slice_at_def)

lemma fold_indexContext_fst:
  "slice_at (fst (fold indexContext cs s)) f = slice_at (fst s) f @ filter (\<lambda>c. FilePath c = f) cs"
  by (induction cs arbitrary: s) (simp_all add: indexContext_fst)

lemma insertSpan_byFile:
  "slice_at (spansByFile (store (insertSpan p proto w))) f =
     slice_at (spansByFile (store w)) f @ filter (\<lambda>c. FilePath c = f) (FileContexts (heap w p))"
  unfolding insertSpan_def Let_def
  by (simp add: case_prod_beta fold_indexContext_fst linkSpan_heap split: option.splits)

subsection \<open>What the sweep removes\<close>

lemma removeTrace_traces [simp]: "traces (removeTrace fo tid st) = (traces st)(tid := None)"
  by (auto simp: removeTrace_def split: option.splits)

lemma removeTrace_limits [simp]:
  "maxSpans (removeTrace fo tid st) = maxSpans st" "retention (removeTrace fo tid st) = retention st"
  by (auto simp: removeTrace_def split: option.splits)

lemma fold_removeTrace_traces:
  "traces (fold (removeTrace fo) ids st) k = (if k \<in> set ids then None else traces st k)"
  by (induction ids arbitrary: st) auto

lemma cleanup_traces_Some:
  "traces (cleanupOldTraces sw st) k = Some t \<Longrightarrow> traces st k = Some t"
  by (auto simp: cleanupOldTraces_def fold_removeTrace_traces split: if_splits)

lemma cleanup_noop:
  "maxSpans st \<le> 0 \<Longrightarrow> retention st \<le> 0 \<Longrightarrow> cleanupOldTraces sw st = st"
  by (simp add: cleanupOldTraces_def)

lemma GetSpan_cleanup:
  "traces (cleanupOldTraces sw (store w)) k \<noteq> None \<Longrightarrow>
   GetSpan (w\<lparr>store := cleanupOldTraces sw (store w)\<rparr>) k s = GetSpan w k s"
  by (auto simp: GetSpan_def dest: cleanup_traces_Some split: option.splits)

lemma len_map_upd_present: "m k \<noteq> None \<Longrightarrow> len_map (m(k \<mapsto> v)) = len_map m"
  by (auto simp: len_map_def insert_absorb domI)

lemma AddSpan_nolimit:
  "maxSpans (store w) \<le> 0 \<Longrightarrow> retention (store w) \<le> 0 \<Longrightarrow> SpanProto (heap w p) = Some proto \<Longrightarrow>
   AddSpan sw (Some p) w = Some (insertSpan p proto w)"
  by (simp add: AddSpan_def Let_def cleanup_noop insertSpan_limits)

lemma AddSpans_nolimit:
  assumes "maxSpans (store w) \<le> 0" "retention (store w) \<le> 0"
    and "\<forall>c\<in>set calls. \<exists>p. snd c = Some p \<and> SpanProto (heap w p) \<noteq> None"
  shows "\<exists>w'. AddSpans calls w = Some w' \<and>
           dom (traces (store w)) \<subseteq> dom (traces (store w')) \<and>
           (\<forall>k. dom (GetSpan w k) \<subseteq> dom (GetSpan w' k)) \<and>
           (\<forall>f. \<exists>ys. slice_at (spansByFile (store w')) f = slice_at (spansByFile (store w)) f @ ys)"
  using assms
proof (induction calls arbitrary: w)
  case Nil
  show ?case by simp
next
  case (Cons c calls)
  from Cons.prems(3) obtain p proto where c: "snd c = Some p" "SpanProto (heap w p) = Some proto"
    by auto
  let ?m = "insertSpan p proto w"
  have step: "AddSpan (fst c) (snd c) w = Some ?m"
    using AddSpan_nolimit[OF Cons.prems(1,2) c(2)] c(1) by simp
  have lim: "maxSpans (store ?m) \<le> 0" "retention (store ?m) \<le> 0"
    using Cons.prems(1,2) by (simp_all add: insertSpan_limits)
  have valid: "\<forall>c\<in>set calls. \<exists>p. snd c = Some p \<and> SpanProto (heap ?m p) \<noteq> None"
    using Cons.prems(3) by simp
  from Cons.IH[OF lim valid] obtain w' where w':
    "AddSpans calls ?m = Some w'"
    "dom (traces (store ?m)) \<subseteq> dom (traces (store w'))"
    "\<forall>k. dom (GetSpan ?m k) \<subseteq> dom (GetSpan w' k)"
    "\<forall>f. \<exists>ys. slice_at (spansByFile (store w')) f = slice_at (spansByFile (store ?m)) f @ ys"
    by blast
  have a: "dom (traces (store w)) \<subseteq> dom (traces (store w'))"
    using w'(2) by (auto simp: insertSpan_dom)
  have b: "dom (GetSpan w k) \<subseteq> dom (GetSpan w' k)" for k
  proof -
    have "dom (GetSpan w k) \<subseteq> dom (GetSpan ?m k)"
      by (auto simp: insertSpan_stored)
    with w'(3) show ?thesis by blast
  qed
  have d: "\<exists>ys. slice_at (spansByFile (store w')) f = slice_at (spansByFile (store w)) f @ ys" for f
  proof -
    from w'(4) obtain ys
      where "slice_at (spansByFile (store w')) f = slice_at (spansByFile (store ?m)) f @ ys"
      by blast
    then show ?thesis by (simp add: insertSpan_byFile)
  qed
  show ?case
    using step w'(1) a b d by simp
qed

section \<open>The claims about the store\<close>

text \<open>
  C1 (as amended).  Two span objects of one trace, the second naming the first as its
  parent by a span id that is neither empty nor the all-zero sentinel, with different
  span ids, the child id not yet among the parent's children: when the parent is
  added first and its trace is still stored after the sweep of that call, adding the
  child leaves the child's id exactly once in the parent's \<open>Children\<close>.
\<close>

theorem parent_first_links_child:
  assumes s1: "SpanProto (heap w p1) = Some proto1"
    and s2: "SpanProto (heap w p2) = Some proto2"
    and tid: "hex_EncodeToString (TraceId proto1) = tid" "hex_EncodeToString (TraceId proto2) = tid"
    and ids: "hex_EncodeToString (SpanId proto1) = id1" "hex_EncodeToString (SpanId proto2) = id2"
    and parent: "ParentID (heap w p2) = id1"
    and noroot: "id1 \<noteq> []" "id1 \<noteq> ''0000000000000000''"
    and neq: "id1 \<noteq> id2"
    and fresh: "id2 \<notin> set (Children (heap w p1))"
    and first: "AddSpan sw1 (Some p1) w = Some w1"
    and kept: "GetTrace w1 tid \<noteq> None"
  shows "\<exists>w2. AddSpan sw2 (Some p2) w1 = Some w2 \<and> count_list (Children (heap w2 p1)) id2 = 1"
proof -
  let ?m1 = "insertSpan p1 proto1 w"
  have w1: "w1 = ?m1\<lparr>store := cleanupOldTraces sw1 (store ?m1)\<rparr>"
    using first by (simp add: AddSpan_def s1 Let_def)
  have h1: "heap w1 = heap ?m1" by (simp add: w1)
  have c1: "count_list (Children (heap w1 p1)) id2 = 0"
    using fresh neq ids by (auto simp: h1 insertSpan_heap count_list_0_iff split: option.splits)
  have proto2: "SpanProto (heap w1 p2) = Some proto2" by (simp add: h1 s2)
  have par2: "ParentID (heap w1 p2) = id1" by (simp add: h1 parent)
  have look: "GetSpan w1 tid id1 = Some p1"
    using kept GetSpan_cleanup[of sw1 ?m1 tid id1]
    by (simp add: w1 GetTrace_def insertSpan_stored tid ids)
  let ?m2 = "insertSpan p2 proto2 w1"
  have run: "AddSpan sw2 (Some p2) w1 = Some (?m2\<lparr>store := cleanupOldTraces sw2 (store ?m2)\<rparr>)"
    by (simp add: AddSpan_def proto2 Let_def)
  have "heap ?m2 p1 = (heap w1 p1)\<lparr>Children := Children (heap w1 p1) @ [id2]\<rparr>"
    using look neq noroot by (simp add: insertSpan_heap par2 insertSpan_stored tid ids)
  then have "count_list (Children (heap ?m2 p1)) id2 = 1"
    using c1 by simp
  with run show ?thesis by simp
qed

text \<open>The theorem at the example objects: the root at address 1, then its child at
  address 2.\<close>

theorem parent_first_links_child_witness:
  "AddSpan (exSweep 0 []) (Some 1) (exWorld 0 0) = Some (insertSpan 1 (exSpan 1 1 []) (exWorld 0 0)) \<and>
   (\<exists>w2. AddSpan (exSweep 0 []) (Some 2) (insertSpan 1 (exSpan 1 1 []) (exWorld 0 0)) = Some w2 \<and>
      count_list (Children (heap w2 1)) ''02'' = 1)"
proof -
  let ?w = "exWorld 0 0"
  let ?w1 = "insertSpan 1 (exSpan 1 1 []) ?w"
  have first: "AddSpan (exSweep 0 []) (Some 1) ?w = Some ?w1"
    by (rule AddSpan_nolimit) (simp_all add: example_defs)
  have kept: "GetTrace ?w1 ''01'' \<noteq> None"
    using insertSpan_dom[of 1 "exSpan 1 1 []" ?w] by (auto simp: GetTrace_def exSpan_def)
  have "\<exists>w2. AddSpan (exSweep 0 []) (Some 2) ?w1 = Some w2 \<and> count_list (Children (heap w2 1)) ''02'' = 1"
    by (rule parent_first_links_child[where w = ?w and ?proto1.0 = "exSpan 1 1 []" and ?proto2.0 = "exSpan 1 2 [1]"
          and tid = "''01''" and ?id1.0 = "''01''", OF _ _ _ _ _ _ _ _ _ _ _ first kept])
       (simp_all add: example_defs)
  with first show ?thesis by simp
qed

text \<open>
  C1 as stated fails for the other order: the child at address 2 first, then its
  parent at address 1, with no limits configured.  Both spans are stored, and the
  parent has no children: \<open>AddSpan\<close> looks for the parent only when the child arrives.
\<close>

theorem child_first_counterexample:
  "spanAfter [(exSweep 0 [], Some 2), (exSweep 0 [], Some 1)] (exWorld 0 0) ''01'' ''01'' = Some (Some 1) \<and>
   spanAfter [(exSweep 0 [], Some 2), (exSweep 0 [], Some 1)] (exWorld 0 0) ''01'' ''02'' = Some (Some 2) \<and>
   childrenAfter [(exSweep 0 [], Some 2), (exSweep 0 [], Some 1)] (exWorld 0 0) 1 = Some []"
  by (simp add: store_defs example_defs)

text \<open>
  C4 (as amended).  A span object whose trace id and span id are already stored:
  \<open>AddSpan\<close> returns, and if the trace is still stored after the sweep of that call,
  the trace maps the span id to the new object, every other span id as before, and
  has as many spans as before.  Without limits the trace is always still stored.
\<close>

theorem readd_overwrites:
  assumes proto: "SpanProto (heap w p) = Some proto"
    and tid: "tid = hex_EncodeToString (TraceId proto)"
    and sid: "sid = hex_EncodeToString (SpanId proto)"
    and present: "GetSpan w tid sid \<noteq> None"
  shows "\<exists>w'. AddSpan sw (Some p) w = Some w' \<and>
           (GetTrace w' tid \<noteq> None \<longrightarrow>
              GetSpan w' tid = (GetSpan w tid)(sid \<mapsto> p) \<and>
              len_map (GetSpan w' tid) = len_map (GetSpan w tid)) \<and>
           (maxSpans (store w) \<le> 0 \<and> retention (store w) \<le> 0 \<longrightarrow> GetTrace w' tid \<noteq> None)"
proof -
  let ?m = "insertSpan p proto w"
  let ?w' = "?m\<lparr>store := cleanupOldTraces sw (store ?m)\<rparr>"
  have run: "AddSpan sw (Some p) w = Some ?w'"
    by (simp add: AddSpan_def proto Let_def)
  have mid: "GetSpan ?m tid = (GetSpan w tid)(sid \<mapsto> p)"
    by (rule ext) (simp add: insertSpan_stored tid sid)
  have keep: "GetSpan ?w' tid = GetSpan ?m tid" if "GetTrace ?w' tid \<noteq> None"
    using that GetSpan_cleanup[of sw ?m tid] by (intro ext) (simp add: GetTrace_def)
  have cnt: "len_map ((GetSpan w tid)(sid \<mapsto> p)) = len_map (GetSpan w tid)"
    using present by (rule len_map_upd_present)
  have nolimit: "GetTrace ?w' tid \<noteq> None"
    if "maxSpans (store w) \<le> 0 \<and> retention (store w) \<le> 0"
    using that insertSpan_dom[of p proto w]
    by (auto simp: GetTrace_def cleanup_noop insertSpan_limits tid)
  show ?thesis
    using run mid keep cnt nolimit by auto
qed

text \<open>The theorem at the example objects: the root span delivered a second time
  (address 3), with no limits configured.\<close>

theorem readd_overwrites_witness:
  "GetSpan (insertSpan 1 (exSpan 1 1 []) (exWorld 0 0)) ''01'' ''01'' = Some 1 \<and>
   (\<exists>w'. AddSpan (exSweep 0 []) (Some 3) (insertSpan 1 (exSpan 1 1 []) (exWorld 0 0)) = Some w' \<and>
      GetTrace w' ''01'' \<noteq> None \<and>
      GetSpan w' ''01'' ''01'' = Some 3 \<and>
      len_map (GetSpan w' ''01'') = len_map (GetSpan (insertSpan 1 (exSpan 1 1 []) (exWorld 0 0)) ''01''))"
proof -
  let ?w = "insertSpan 1 (exSpan 1 1 []) (exWorld 0 0)"
  have a: "SpanProto (heap ?w 3) = Some (exSpan 1 1 [])" by (simp add: example_defs)
  have t: "''01'' = hex_EncodeToString (TraceId (exSpan 1 1 []))" by (simp add: exSpan_def)
  have s: "''01'' = hex_EncodeToString (SpanId (exSpan 1 1 []))" by (simp add: exSpan_def)
  have b: "GetSpan ?w ''01'' ''01'' = Some 1" by (simp add: insertSpan_stored exSpan_def)
  have b': "GetSpan ?w ''01'' ''01'' \<noteq> None" using b by simp
  have c: "maxSpans (store ?w) \<le> 0 \<and> retention (store ?w) \<le> 0"
    by (simp add: insertSpan_limits) (simp add: example_defs)
  from readd_overwrites[OF a t s b', of "exSweep 0 []"]
  obtain w' where w': "AddSpan (exSweep 0 []) (Some 3) ?w = Some w'"
    "GetTrace w' ''01'' \<noteq> None \<longrightarrow>
              GetSpan w' ''01'' = (GetSpan ?w ''01'')(''01'' \<mapsto> 3) \<and>
              len_map (GetSpan w' ''01'') = len_map (GetSpan ?w ''01'')"
    "maxSpans (store ?w) \<le> 0 \<and> retention (store ?w) \<le> 0 \<longrightarrow> GetTrace w' ''01'' \<noteq> None"
    by blast
  from w'(3) c have k: "GetTrace w' ''01'' \<noteq> None" by blast
  with w'(2) have e: "GetSpan w' ''01'' = (GetSpan ?w ''01'')(''01'' \<mapsto> 3)"
    and l: "len_map (GetSpan w' ''01'') = len_map (GetSpan ?w ''01'')" by blast+
  from e have "GetSpan w' ''01'' ''01'' = Some 3" by simp
  with b w'(1) k l show ?thesis by blast
qed

text \<open>
  C4 as stated fails when the sweep of the same call removes the trace: with a
  retention of 1ns, the span of end time 0 is stored at time 0, and its second
  delivery at time 10 leaves no span under that id.
\<close>

theorem readd_evicted_counterexample:
  "spanAfter [(exSweep 0 [''01''], Some 1)] (exWorld 0 1) ''01'' ''01'' = Some (Some 1) \<and>
   spanAfter [(exSweep 0 [''01''], Some 1), (exSweep 10 [''01''], Some 3)] (exWorld 0 1) ''01'' ''01''
     = Some None"
  by (simp add: store_defs example_defs List.map_filter_simps)

text \<open>
  C5.  With \<open>maxSpans \<le> 0\<close> and \<open>retention \<le> 0\<close> (in particular both 0) the sweep
  returns the store as it is, and every run of \<open>AddSpan\<close> calls on span objects with a
  wire span returns, keeps every trace and every span of the store, and only appends
  to the buckets of the file index.
\<close>

theorem no_limits_never_evicts:
  assumes "maxSpans (store w) \<le> 0" "retention (store w) \<le> 0"
    and "\<forall>c\<in>set calls. \<exists>p. snd c = Some p \<and> SpanProto (heap w p) \<noteq> None"
  shows "cleanupOldTraces sw (store w) = store w \<and>
         (\<exists>w'. AddSpans calls w = Some w' \<and>
           dom (traces (store w)) \<subseteq> dom (traces (store w')) \<and>
           (\<forall>k. dom (GetSpan w k) \<subseteq> dom (GetSpan w' k)) \<and>
           (\<forall>f. \<exists>ys. slice_at (spansByFile (store w')) f = slice_at (spansByFile (store w)) f @ ys))"
  using AddSpans_nolimit[OF assms] cleanup_noop[OF assms(1,2)] by simp

text \<open>The theorem at a run of three calls on the example objects.\<close>

theorem no_limits_never_evicts_witness:
  "cleanupOldTraces (exSweep 7 []) (store (exWorld 0 0)) = store (exWorld 0 0) \<and>
   (\<exists>w'. AddSpans [(exSweep 0 [], Some 1), (exSweep 5 [''01''], Some 2), (exSweep 9 [''01''], Some 3)]
            (exWorld 0 0) = Some w' \<and>
          dom (traces (store (exWorld 0 0))) \<subseteq> dom (traces (store w')))"
proof -
  have a: "maxSpans (store (exWorld 0 0)) \<le> 0" "retention (store (exWorld 0 0)) \<le> 0"
    by (simp_all add: exWorld_def)
  have b: "\<forall>c\<in>set [(exSweep 0 [], Some 1), (exSweep 5 [''01''], Some 2), (exSweep 9 [''01''], Some 3)].
             \<exists>p. snd c = Some p \<and> SpanProto (heap (exWorld 0 0) p) \<noteq> None"
    by (simp add: example_defs)
  from no_limits_never_evicts[OF a b, of "exSweep 7 []"] show ?thesis by blast
qed

section \<open>The sweep\<close>

subsection \<open>The exchange sort sorts\<close>

lemma swapIfAfter_length [simp]: "length (swapIfAfter i j a) = length a"
  by (simp add: swapIfAfter_def)

lemma swapIfAfter_mset: "i < length a \<Longrightarrow> j < length a \<Longrightarrow> mset (swapIfAfter i j a) = mset a"
  by (simp add: swapIfAfter_def mset_swap)

lemma sortInner_inv:
  assumes "i < length a" "i + 1 \<le> k" "k \<le> length a"
  shows "length (fold (swapIfAfter i) [i + 1 ..< k] a) = length a \<and>
         mset (fold (swapIfAfter i) [i + 1 ..< k] a) = mset a \<and>
         (\<forall>m < i. fold (swapIfAfter i) [i + 1 ..< k] a ! m = a ! m) \<and>
         (\<forall>j. i < j \<and> j < k \<longrightarrow>
            snd (fold (swapIfAfter i) [i + 1 ..< k] a ! i) \<le> snd (fold (swapIfAfter i) [i + 1 ..< k] a ! j))"
  using assms(2,3)
proof (induction k rule: dec_induct)
  case base
  show ?case by simp
next
  case (step k)
  let ?b = "fold (swapIfAfter i) [i + 1 ..< k] a"
  from step have IH: "length ?b = length a" "mset ?b = mset a" "\<forall>m < i. ?b ! m = a ! m"
    "\<forall>j. i < j \<and> j < k \<longrightarrow> snd (?b ! i) \<le> snd (?b ! j)"
    by auto
  have k: "i < k" "k < length ?b" "i < length ?b" using step assms(1) IH(1) by auto
  have eq: "fold (swapIfAfter i) [i + 1 ..< Suc k] a = swapIfAfter i k ?b"
    using step(1) by simp
  show ?case
    unfolding eq
  proof (intro conjI allI impI)
    show "length (swapIfAfter i k ?b) = length a" using IH(1) by simp
    show "mset (swapIfAfter i k ?b) = mset a" using swapIfAfter_mset[OF k(3) k(2)] IH(2) by simp
    show "swapIfAfter i k ?b ! m = a ! m" if "m < i" for m
      using that IH(3) k by (simp add: swapIfAfter_def)
    show "snd (swapIfAfter i k ?b ! i) \<le> snd (swapIfAfter i k ?b ! j)" if "i < j \<and> j < Suc k" for j
    proof (cases "j = k")
      case True
      then show ?thesis using k by (auto simp: swapIfAfter_def)
    next
      case False
      with that have "i < j \<and> j < k" by auto
      with IH(4) have "snd (?b ! i) \<le> snd (?b ! j)" by blast
      moreover have "j < length ?b" using \<open>i < j \<and> j < k\<close> k by auto
      ultimately show ?thesis using k \<open>i < j \<and> j < k\<close> by (auto simp: swapIfAfter_def)
    qed
  qed
qed

lemma sortInner_props:
  assumes "i < length a"
  shows "length (sortInner i a) = length a" "mset (sortInner i a) = mset a"
    "\<forall>m < i. sortInner i a ! m = a ! m"
    "\<forall>j. i < j \<and> j < length a \<longrightarrow> snd (sortInner i a ! i) \<le> snd (sortInner i a ! j)"
  using sortInner_inv[OF assms, of "length a"] assms
  unfolding sortInner_def by auto

lemma drop_mset_eq:
  assumes "length b = length a" "mset b = mset a" "\<forall>m < i. b ! m = a ! m" "i \<le> length a"
  shows "mset (drop i b) = mset (drop i a)"
proof -
  have "take i b = take i a"
    using assms by (intro nth_take_lemma) auto
  moreover have "mset (take i b) + mset (drop i b) = mset (take i a) + mset (drop i a)"
    using assms(2) by (metis append_take_drop_id mset_append)
  ultimately show ?thesis by simp
qed

lemma sortAges_inv:
  assumes "i \<le> length a"
  shows "length (fold sortInner [0 ..< i] a) = length a \<and>
         mset (fold sortInner [0 ..< i] a) = mset a \<and>
         (\<forall>m m'. m < i \<and> m < m' \<and> m' < length a \<longrightarrow>
            snd (fold sortInner [0 ..< i] a ! m) \<le> snd (fold sortInner [0 ..< i] a ! m'))"
  using assms
proof (induction i)
  case 0
  show ?case by simp
next
  case (Suc i)
  let ?c = "fold sortInner [0 ..< i] a"
  let ?d = "sortInner i ?c"
  from Suc have IH: "length ?c = length a" "mset ?c = mset a"
    "\<forall>m m'. m < i \<and> m < m' \<and> m' < length a \<longrightarrow> snd (?c ! m) \<le> snd (?c ! m')"
    by auto
  have i: "i < length ?c" using Suc.prems IH(1) by simp
  note P = sortInner_props[OF i]
  have eq: "fold sortInner [0 ..< Suc i] a = ?d" by simp
  have dm: "mset (drop i ?d) = mset (drop i ?c)"
    using drop_mset_eq[OF P(1) P(2) P(3)] i by simp
  show ?case
    unfolding eq
  proof (intro conjI allI impI)
    show "length ?d = length a" using P(1) IH(1) by simp
    show "mset ?d = mset a" using P(2) IH(2) by simp
    show "snd (?d ! m) \<le> snd (?d ! m')" if h: "m < Suc i \<and> m < m' \<and> m' < length a" for m m'
    proof (cases "m = i")
      case True
      then show ?thesis using P(4) h IH(1) by auto
    next
      case False
      with h have m: "m < i" by auto
      then have dm': "?d ! m = ?c ! m" using P(3) by blast
      show ?thesis
      proof (cases "m' < i")
        case True
        then have "?d ! m' = ?c ! m'" using P(3) by blast
        with dm' IH(3) m h show ?thesis by auto
      next
        case False
        then have "?d ! m' = drop i ?d ! (m' - i)" using h P(1) IH(1) by simp
        moreover have "m' - i < length (drop i ?d)" using h P(1) IH(1) False by (simp, linarith)
        ultimately have "?d ! m' \<in> set (drop i ?d)" by (metis nth_mem)
        then have "?d ! m' \<in> set (drop i ?c)" using dm by (metis set_mset_mset)
        then obtain j where j: "j < length (drop i ?c)" "drop i ?c ! j = ?d ! m'"
          by (auto simp: in_set_conv_nth)
        then have "?c ! (i + j) = ?d ! m'" "i + j < length a" using IH(1) by auto
        moreover have "snd (?c ! m) \<le> snd (?c ! (i + j))"
          using IH(3) m \<open>i + j < length a\<close> by auto
        ultimately show ?thesis using dm' by simp
      qed
    qed
  qed
qed

lemma sortAges_mset: "mset (sortAges a) = mset a"
  using sortAges_inv[of "length a" a] by (simp add: sortAges_def)

lemma sortAges_length [simp]: "length (sortAges a) = length a"
  using sortAges_inv[of "length a" a] by (simp add: sortAges_def)

lemma sortAges_sorted: "sorted (map snd (sortAges a))"
proof -
  have "\<forall>m m'. m < m' \<and> m' < length a \<longrightarrow> snd (sortAges a ! m) \<le> snd (sortAges a ! m')"
    using sortAges_inv[of "length a" a] by (auto simp: sortAges_def)
  then show ?thesis
    by (auto simp: sorted_iff_nth_mono_less)
qed

subsection \<open>The two passes\<close>

lemma range_map_present:
  "set order \<subseteq> dom m \<Longrightarrow> range_map m order = map (\<lambda>k. (k, the (m k))) order"
  by (induction order) (auto simp: range_map_def List.map_filter_simps)

lemma fold_retentionStep:
  "fold (retentionStep nw ret) (map (\<lambda>k. (k, the (m k))) ks) (old, tot) =
     (old @ filter (\<lambda>k. ret > 0 \<and> Time_Sub nw (EndTime_t (the (m k))) > ret) ks,
      tot + sum_list (map (\<lambda>k. len_map (Spans (the (m k)))) ks))"
  by (induction ks arbitrary: old tot) (auto simp: retentionStep_def Let_def)

lemma retentionPass_visits:
  assumes "visits (traces st) order"
  shows "retentionPass nw order st = (filter (expired nw st) order, totalSpans st)"
proof -
  have sub: "set order \<subseteq> dom (traces st)" and d: "distinct order" and eq: "set order = dom (traces st)"
    using assms by (auto simp: visits_def)
  have f: "filter (\<lambda>k. retention st > 0 \<and> Time_Sub nw (EndTime_t (the (traces st k))) > retention st) order
         = filter (expired nw st) order"
    using sub by (intro filter_cong) (auto simp: expired_def)
  have s: "sum_list (map (\<lambda>k. len_map (Spans (the (traces st k)))) order) = totalSpans st"
    using d eq by (simp add: totalSpans_def sum_list_distinct_conv_sum_set)
  show ?thesis
    unfolding retentionPass_def range_map_present[OF sub] fold_retentionStep
    using f s by simp
qed

lemma takeOldest_minimal:
  assumes "\<forall>x \<in> set ages. traces st (fst x) \<noteq> None"
  shows "\<exists>n \<le> length ages.
           takeOldest st ages tot acc = acc @ map fst (take n ages) \<and>
           (tot - sum_list (map (\<lambda>x. len_map (Spans (the (traces st (fst x))))) (take n ages)) \<le> maxSpans st
              \<or> n = length ages) \<and>
           (0 < n \<longrightarrow>
              maxSpans st < tot - sum_list (map (\<lambda>x. len_map (Spans (the (traces st (fst x))))) (take (n - 1) ages)))"
  using assms
proof (induction ages arbitrary: tot acc)
  case Nil
  show ?case by simp
next
  case (Cons ta ages)
  show ?case
  proof (cases "tot \<le> maxSpans st")
    case True
    then show ?thesis by (intro exI[of _ 0]) simp
  next
    case False
    from Cons.prems obtain trace where t: "traces st (fst ta) = Some trace" by auto
    from Cons.prems have "\<forall>x \<in> set ages. traces st (fst x) \<noteq> None" by simp
    from Cons.IH[OF this, of "tot - len_map (Spans trace)" "acc @ [fst ta]"]
    obtain n where n: "n \<le> length ages"
      "takeOldest st ages (tot - len_map (Spans trace)) (acc @ [fst ta]) = (acc @ [fst ta]) @ map fst (take n ages)"
      "tot - len_map (Spans trace) - sum_list (map (\<lambda>x. len_map (Spans (the (traces st (fst x))))) (take n ages)) \<le> maxSpans st
         \<or> n = length ages"
      "0 < n \<longrightarrow> maxSpans st < tot - len_map (Spans trace) -
          sum_list (map (\<lambda>x. len_map (Spans (the (traces st (fst x))))) (take (n - 1) ages))"
      by blast
    have last: "maxSpans st < tot - sum_list (map (\<lambda>x. len_map (Spans (the (traces st (fst x))))) (take n (ta # ages)))"
    proof (cases n)
      case 0
      then show ?thesis using False by simp
    next
      case (Suc m)
      then show ?thesis using n(4) t by (simp add: algebra_simps)
    qed
    show ?thesis
      using False t n(1,2,3) last by (intro exI[of _ "Suc n"]) (auto simp: algebra_simps)
  qed
qed

lemma totalSpans_removed:
  assumes fin: "finite (dom (traces st))" and sub: "R \<subseteq> dom (traces st)"
    and tr: "\<And>k. traces st' k = (if k \<in> R then None else traces st k)"
  shows "totalSpans st' = totalSpans st - (\<Sum>k \<in> R. len_map (Spans (the (traces st k))))"
proof -
  have d: "dom (traces st') = dom (traces st) - R"
    using tr by (auto simp: dom_def)
  have "totalSpans st' = (\<Sum>k \<in> dom (traces st) - R. len_map (Spans (the (traces st k))))"
    unfolding totalSpans_def d by (intro sum.cong) (auto simp: tr)
  also have "\<dots> = totalSpans st - (\<Sum>k \<in> R. len_map (Spans (the (traces st k))))"
    unfolding totalSpans_def using fin sub by (rule sum_diff)
  finally show ?thesis .
qed

lemma markedForRemoval_expired:
  assumes v1: "visits (traces st) (order1 sw)" and ex: "\<exists>tid. expired (now sw) st tid"
  shows "markedForRemoval sw st = filter (expired (now sw) st) (order1 sw)"
    and "set (markedForRemoval sw st) = {tid. expired (now sw) st tid}"
    and "markedForRemoval sw st \<noteq> []"
proof -
  from ex obtain tid where tid: "expired (now sw) st tid" by blast
  then have "tid \<in> dom (traces st)" by (auto simp: expired_def split: option.splits)
  then have "tid \<in> set (order1 sw)" using v1 by (simp add: visits_def)
  with tid have ne: "filter (expired (now sw) st) (order1 sw) \<noteq> []"
    by (auto simp: filter_empty_conv)
  show m: "markedForRemoval sw st = filter (expired (now sw) st) (order1 sw)"
    using ne by (simp add: markedForRemoval_def retentionPass_visits[OF v1] sizePass_def)
  show "markedForRemoval sw st \<noteq> []" using m ne by simp
  have "{tid. expired (now sw) st tid} \<subseteq> set (order1 sw)"
    using v1 by (auto simp: visits_def expired_def split: option.splits)
  then show "set (markedForRemoval sw st) = {tid. expired (now sw) st tid}"
    unfolding m by auto
qed

lemma markedForRemoval_size:
  assumes v1: "visits (traces st) (order1 sw)" and v2: "visits (traces st) (order2 sw)"
    and cap: "0 < maxSpans st"
    and noex: "\<forall>tid. \<not> expired (now sw) st tid"
    and srt: "srt = sortAges (map (\<lambda>k. (k, endOf st k)) (order2 sw))"
  shows "\<exists>n \<le> length srt.
           markedForRemoval sw st = map fst (take n srt) \<and>
           (totalSpans st \<le> maxSpans st \<longrightarrow> n = 0) \<and>
           (totalSpans st - sum_list (map (\<lambda>x. len_map (Spans (the (traces st (fst x))))) (take n srt))
              \<le> maxSpans st \<or> n = length srt) \<and>
           (0 < n \<longrightarrow> maxSpans st <
              totalSpans st - sum_list (map (\<lambda>x. len_map (Spans (the (traces st (fst x))))) (take (n - 1) srt)))"
proof -
  let ?pairs = "map (\<lambda>k. (k, endOf st k)) (order2 sw)"
  have sub2: "set (order2 sw) \<subseteq> dom (traces st)" using v2 by (simp add: visits_def)
  have pairs: "map (\<lambda>(tid, trace). (tid, EndTime_t trace)) (range_map (traces st) (order2 sw)) = ?pairs"
    by (simp add: range_map_present[OF sub2] endOf_def)
  have ret: "retentionPass (now sw) (order1 sw) st = ([], totalSpans st)"
    using noex by (simp add: retentionPass_visits[OF v1])
  have "mset srt = mset ?pairs" unfolding srt by (rule sortAges_mset)
  then have "set srt = set ?pairs" by (metis set_mset_mset)
  then have pres: "\<forall>x \<in> set srt. traces st (fst x) \<noteq> None"
    using sub2 by auto
  show ?thesis
  proof (cases "totalSpans st > maxSpans st")
    case False
    then have "markedForRemoval sw st = []"
      by (auto simp: markedForRemoval_def ret sizePass_def)
    with False show ?thesis
      by (intro exI[of _ 0]) simp
  next
    case True
    then have m: "markedForRemoval sw st = takeOldest st srt (totalSpans st) []"
      using cap by (simp add: markedForRemoval_def ret sizePass_def pairs srt)
    from takeOldest_minimal[OF pres, of "totalSpans st" "[]"]
    obtain n where n: "n \<le> length srt"
      "takeOldest st srt (totalSpans st) [] = [] @ map fst (take n srt)"
      "totalSpans st - sum_list (map (\<lambda>x. len_map (Spans (the (traces st (fst x))))) (take n srt)) \<le> maxSpans st
         \<or> n = length srt"
      "0 < n \<longrightarrow> maxSpans st <
         totalSpans st - sum_list (map (\<lambda>x. len_map (Spans (the (traces st (fst x))))) (take (n - 1) srt))"
      by blast
    show ?thesis
      using n m True by (intro exI[of _ n]) auto
  qed
qed

lemma cleanup_traces:
  "traces (cleanupOldTraces sw st) k =
     (if (maxSpans st \<le> 0 \<and> retention st \<le> 0) \<or> k \<notin> set (markedForRemoval sw st)
      then traces st k else None)"
  by (simp add: cleanupOldTraces_def fold_removeTrace_traces)

lemma cleanup_size_pass:
  assumes v1: "visits (traces st) (order1 sw)" and v2: "visits (traces st) (order2 sw)"
    and cap: "0 < maxSpans st"
    and noex: "\<forall>tid. \<not> expired (now sw) st tid"
  shows "totalSpans (cleanupOldTraces sw st) \<le> maxSpans st"
    and "\<forall>r \<in> dom (traces st) - dom (traces (cleanupOldTraces sw st)).
         \<forall>k \<in> dom (traces (cleanupOldTraces sw st)). endOf st r \<le> endOf st k"
    and "totalSpans st \<le> maxSpans st \<longrightarrow> cleanupOldTraces sw st = st"
    and "dom (traces st) - dom (traces (cleanupOldTraces sw st)) \<noteq> {} \<longrightarrow>
         (\<exists>r \<in> dom (traces st) - dom (traces (cleanupOldTraces sw st)).
            (\<forall>r' \<in> dom (traces st) - dom (traces (cleanupOldTraces sw st)). endOf st r' \<le> endOf st r) \<and>
            maxSpans st < totalSpans (cleanupOldTraces sw st) + len_map (Spans (the (traces st r))))"
proof -
  let ?st' = "cleanupOldTraces sw st"
  let ?pairs = "map (\<lambda>k. (k, endOf st k)) (order2 sw)"
  let ?len = "\<lambda>k. len_map (Spans (the (traces st k)))"
  define srt where "srt = sortAges ?pairs"
  from markedForRemoval_size[OF v1 v2 cap noex srt_def]
  obtain n where n: "n \<le> length srt"
    and m: "markedForRemoval sw st = map fst (take n srt)"
    and z: "totalSpans st \<le> maxSpans st \<longrightarrow> n = 0"
    and stop: "totalSpans st - sum_list (map (\<lambda>x. ?len (fst x)) (take n srt)) \<le> maxSpans st
                 \<or> n = length srt"
    and least: "0 < n \<longrightarrow> maxSpans st <
                  totalSpans st - sum_list (map (\<lambda>x. ?len (fst x)) (take (n - 1) srt))"
    by blast
  have ms: "mset srt = mset ?pairs" unfolding srt_def by (rule sortAges_mset)
  have so: "sorted (map snd srt)" unfolding srt_def by (rule sortAges_sorted)
  let ?R = "set (map fst (take n srt))"
  have d2: "distinct (order2 sw)" and s2: "set (order2 sw) = dom (traces st)"
    using v2 by (auto simp: visits_def)
  have fin: "finite (dom (traces st))" using s2[symmetric] by simp
  have fp: "map fst ?pairs = order2 sw" by (simp add: comp_def)
  have "mset (map fst srt) = mset (map fst ?pairs)" using ms by (metis mset_map)
  then have mf: "mset (map fst srt) = mset (order2 sw)" by (simp only: fp)
  have df: "distinct (map fst srt)" using mf d2 by (metis mset_eq_imp_distinct_iff)
  have sf: "set (map fst srt) = dom (traces st)" using mf s2 by (metis set_mset_mset)
  have setp: "set srt = set ?pairs" using ms by (metis set_mset_mset)
  have dt: "distinct (map fst (take n srt))"
    using df by (metis distinct_take take_map)
  have Rsub: "?R \<subseteq> dom (traces st)"
    using sf by (metis set_take_subset take_map)
  have tr: "traces ?st' k = (if k \<in> ?R then None else traces st k)" for k
    using cap by (auto simp: cleanup_traces m)
  have tot: "totalSpans ?st' = totalSpans st - (\<Sum>k \<in> ?R. ?len k)"
    by (rule totalSpans_removed[OF fin Rsub tr])
  have sumR: "(\<Sum>k \<in> ?R. ?len k) = sum_list (map (\<lambda>x. ?len (fst x)) (take n srt))"
    using sum_list_distinct_conv_sum_set[OF dt, of ?len] by (simp add: comp_def)
  have nonneg: "0 \<le> totalSpans ?st'" by (simp add: totalSpans_def len_map_def sum_nonneg)
  show "totalSpans ?st' \<le> maxSpans st"
  proof (cases "n = length srt")
    case True
    then have "?R = dom (traces st)" using sf by simp
    then have "dom (traces ?st') = {}" using tr by (auto simp: dom_def)
    then have "totalSpans ?st' = 0" by (simp add: totalSpans_def)
    with cap show ?thesis by simp
  next
    case False
    with stop tot sumR show ?thesis by simp
  qed
  show "\<forall>r \<in> dom (traces st) - dom (traces ?st'). \<forall>k \<in> dom (traces ?st'). endOf st r \<le> endOf st k"
  proof (intro ballI)
    fix r k assume r: "r \<in> dom (traces st) - dom (traces ?st')" and k: "k \<in> dom (traces ?st')"
    from r have rR: "r \<in> ?R" using tr[of r] by (auto simp: dom_def split: if_splits)
    from k have kR: "k \<notin> ?R" and kd: "k \<in> dom (traces st)"
      using tr[of k] by (auto simp: dom_def split: if_splits)
    from rR obtain x where x: "x \<in> set (take n srt)" "fst x = r" by auto
    then have "x \<in> set ?pairs" using setp by (metis in_set_takeD)
    with x have xs: "snd x = endOf st r" by auto
    have "(k, endOf st k) \<in> set srt" using kd s2 setp by auto
    then have "(k, endOf st k) \<in> set (take n srt) \<union> set (drop n srt)"
      by (metis append_take_drop_id set_append)
    with kR have kdrop: "(k, endOf st k) \<in> set (drop n srt)" by force
    have "sorted (map snd (take n srt) @ map snd (drop n srt))"
      using so by (metis append_take_drop_id map_append)
    then have le: "\<forall>a \<in> set (take n srt). \<forall>b \<in> set (drop n srt). snd a \<le> snd b"
      by (simp add: sorted_append)
    from le x(1) kdrop have "snd x \<le> snd (k, endOf st k)" by blast
    then show "endOf st r \<le> endOf st k" using xs by simp
  qed
  show "totalSpans st \<le> maxSpans st \<longrightarrow> ?st' = st"
    using z m by (auto simp: cleanupOldTraces_def)
  have removed: "dom (traces st) - dom (traces ?st') = ?R"
    using tr Rsub by (auto simp: dom_def split: if_splits)
  show "dom (traces st) - dom (traces ?st') \<noteq> {} \<longrightarrow>
         (\<exists>r \<in> dom (traces st) - dom (traces ?st').
            (\<forall>r' \<in> dom (traces st) - dom (traces ?st'). endOf st r' \<le> endOf st r) \<and>
            maxSpans st < totalSpans ?st' + ?len r)"
    unfolding removed
  proof
    assume "?R \<noteq> {}"
    then have pos: "0 < n" by (cases n) auto
    define i where "i = n - 1"
    have i: "i < length srt" "Suc i = n" using pos n by (auto simp: i_def)
    let ?r = "fst (srt ! i)"
    have tk: "take n srt = take i srt @ [srt ! i]"
      using i take_Suc_conv_app_nth[of i srt] by simp
    have rR: "?r \<in> ?R" unfolding tk by simp
    have "sum_list (map (\<lambda>x. ?len (fst x)) (take n srt)) =
          sum_list (map (\<lambda>x. ?len (fst x)) (take i srt)) + ?len ?r"
      unfolding tk by simp
    with least pos tot sumR have big: "maxSpans st < totalSpans ?st' + ?len ?r"
      by (simp add: i_def)
    have newest: "endOf st r' \<le> endOf st ?r" if "r' \<in> ?R" for r'
    proof -
      from that obtain x where x: "x \<in> set (take n srt)" "fst x = r'" by auto
      then obtain j where j: "j < n" "j < length srt" "srt ! j = x"
        by (auto simp: in_set_conv_nth)
      have "x \<in> set ?pairs" using x(1) setp by (metis in_set_takeD)
      with x have xs: "snd x = endOf st r'" by auto
      have "srt ! i \<in> set ?pairs" using i(1) setp by (metis nth_mem)
      then have ie: "snd (srt ! i) = endOf st ?r" by auto
      have "j \<le> i" using j(1) i(2) by simp
      then have "map snd srt ! j \<le> map snd srt ! i"
        using so i(1) by (intro sorted_nth_mono) simp_all
      then show ?thesis using j i(1) xs ie by simp
    qed
    from rR newest big
    show "\<exists>r \<in> ?R. (\<forall>r' \<in> ?R. endOf st r' \<le> endOf st r) \<and> maxSpans st < totalSpans ?st' + ?len r"
      by blast
  qed
qed

lemma cleanup_retention_pass:
  assumes v1: "visits (traces st) (order1 sw)"
    and ex: "\<exists>tid. expired (now sw) st tid"
  shows "dom (traces (cleanupOldTraces sw st)) = dom (traces st) - {tid. expired (now sw) st tid}"
    and "(\<forall>tid \<in> dom (traces st). 0 < len_map (Spans (the (traces st tid)))) \<longrightarrow>
         totalSpans (cleanupOldTraces sw st) < totalSpans st"
proof -
  let ?st' = "cleanupOldTraces sw st"
  let ?R = "{tid. expired (now sw) st tid}"
  let ?len = "\<lambda>k. len_map (Spans (the (traces st k)))"
  note M = markedForRemoval_expired[OF v1 ex]
  from ex have ret: "retention st > 0" by (auto simp: expired_def split: option.splits)
  have tr: "traces ?st' k = (if k \<in> ?R then None else traces st k)" for k
    using ret by (auto simp: cleanup_traces M(2))
  show "dom (traces ?st') = dom (traces st) - ?R"
    using tr by (auto simp: dom_def)
  have fin: "finite (dom (traces st))" using v1 by (metis visits_def List.finite_set)
  have Rsub: "?R \<subseteq> dom (traces st)" by (auto simp: expired_def split: option.splits)
  have tot: "totalSpans ?st' = totalSpans st - (\<Sum>k \<in> ?R. ?len k)"
    by (rule totalSpans_removed[OF fin Rsub tr])
  show "(\<forall>tid \<in> dom (traces st). 0 < ?len tid) \<longrightarrow> totalSpans ?st' < totalSpans st"
  proof
    assume pos: "\<forall>tid \<in> dom (traces st). 0 < ?len tid"
    from ex obtain t where t: "t \<in> ?R" by blast
    have finR: "finite ?R" using fin Rsub by (rule rev_finite_subset)
    have "0 < (\<Sum>k \<in> ?R. ?len k)"
      using finR t pos Rsub by (intro sum_pos) auto
    with tot show "totalSpans ?st' < totalSpans st" by simp
  qed
qed

lemma Time_Sub_antimono: "u \<le> u' \<Longrightarrow> Time_Sub t u' \<le> Time_Sub t u"
  by (simp add: Time_Sub_def)

lemma expired_older:
  assumes "expired nw st r" "\<not> expired nw st k" "k \<in> dom (traces st)"
  shows "endOf st r < endOf st k"
proof (rule ccontr)
  assume "\<not> endOf st r < endOf st k"
  then have "endOf st k \<le> endOf st r" by simp
  then have "Time_Sub nw (endOf st r) \<le> Time_Sub nw (endOf st k)" by (rule Time_Sub_antimono)
  with assms show False by (auto simp: expired_def endOf_def split: option.splits)
qed

subsection \<open>The example store of ten spans\<close>

lemma hex12 [simp]: "hex_EncodeToString [12] = ''0c''"
  by (simp add: hex_EncodeToString_def hexdigit_def)

lemma ex10_dom: "dom (traces (store exTen)) = {''0a'', ''0b''}"
  by (simp add: exTen_def exFirstTen_def ex10Heap_def store_defs example_defs exDataAt_def
        hex_EncodeToString_def hexdigit_def insert_commute upt_rec)

lemma ex10_total: "totalSpans (store exTen) = 10"
  by (simp add: totalSpans_def exTen_def exFirstTen_def ex10Heap_def store_defs example_defs exDataAt_def
        hex_EncodeToString_def hexdigit_def insert_commute upt_rec)

lemma ex10_run: "AddSpans exFirstTen \<lparr>heap = ex10Heap,
     store = \<lparr>traces = Map.empty, spansByFile = Map.empty, maxSpans = 10, retention = 0\<rparr>\<rparr> = Some exTen"
  by (simp add: exTen_def exFirstTen_def ex10Heap_def store_defs example_defs exDataAt_def
        hex_EncodeToString_def hexdigit_def upt_rec)

lemma ex10_facts:
  "heap exTen = ex10Heap" "maxSpans (store exTen) = 10" "retention (store exTen) = 0"
  by (simp_all add: exTen_def exFirstTen_def ex10Heap_def store_defs example_defs exDataAt_def
        hex_EncodeToString_def hexdigit_def upt_rec)

lemma ex10_mid_total: "totalSpans (store (insertSpan 11 (exSpan 12 1 []) exTen)) = 11"
  by (simp add: totalSpans_def exTen_def exFirstTen_def ex10Heap_def store_defs example_defs exDataAt_def
        hex_EncodeToString_def hexdigit_def insert_commute upt_rec)

lemma ex10_last: "tracesAfter [(exSweep10, Some 11)] exTen = Some {''0b'', ''0c''}"
  by (simp add: tracesAfter_def exTen_def exFirstTen_def ex10Heap_def store_defs example_defs exDataAt_def
        exSweep10_def hex_EncodeToString_def hexdigit_def insert_commute upt_rec
        sortAges_def sortInner_def swapIfAfter_def)

text \<open>
  C3.  A store with a span limit \<open>maxSpans > 0\<close>, at the sweep that ends an \<open>AddSpan\<close>
  call.  Every trace the sweep removes ended no later than every trace it keeps (so
  strictly earlier when the end times are distinct), and the traces it keeps are
  unchanged.  When the retention pass marks nothing, the size pass runs: the spans left
  are at most \<open>maxSpans\<close>, nothing is removed if the store was within the limit, and
  the newest trace it removes was needed: with its spans the store would exceed the
  limit.
  When the retention pass marks a trace, exactly the marked traces are removed: the size
  pass does not run.  In the scenario of the claim (\<open>maxSpans + 1\<close> spans, every trace
  with at least one) the spans left are at most \<open>maxSpans\<close> in either case.
\<close>

theorem size_pass_evicts_oldest:
  assumes proto: "SpanProto (heap w p) = Some proto"
    and st: "st = store (insertSpan p proto w)"
    and v1: "visits (traces st) (order1 sw)" and v2: "visits (traces st) (order2 sw)"
    and cap: "0 < maxSpans st"
  shows "\<exists>w'. AddSpan sw (Some p) w = Some w' \<and>
           (\<forall>k \<in> dom (traces (store w')). traces (store w') k = traces st k) \<and>
           (\<forall>r \<in> dom (traces st) - dom (traces (store w')). \<forall>k \<in> dom (traces (store w')).
               endOf st r \<le> endOf st k) \<and>
           ((\<forall>tid. \<not> expired (now sw) st tid) \<longrightarrow>
               totalSpans (store w') \<le> maxSpans st \<and>
               (totalSpans st \<le> maxSpans st \<longrightarrow> store w' = st) \<and>
               (dom (traces st) - dom (traces (store w')) \<noteq> {} \<longrightarrow>
                  (\<exists>r \<in> dom (traces st) - dom (traces (store w')).
                     (\<forall>r' \<in> dom (traces st) - dom (traces (store w')). endOf st r' \<le> endOf st r) \<and>
                     maxSpans st < totalSpans (store w') + len_map (Spans (the (traces st r)))))) \<and>
           ((\<exists>tid. expired (now sw) st tid) \<longrightarrow>
               dom (traces (store w')) = dom (traces st) - {tid. expired (now sw) st tid}) \<and>
           (totalSpans st = maxSpans st + 1 \<and>
              (\<forall>tid \<in> dom (traces st). 0 < len_map (Spans (the (traces st tid)))) \<longrightarrow>
               totalSpans (store w') \<le> maxSpans st)"
proof -
  let ?m = "insertSpan p proto w"
  let ?st' = "cleanupOldTraces sw st"
  let ?w' = "?m\<lparr>store := ?st'\<rparr>"
  have run: "AddSpan sw (Some p) w = Some ?w'"
    by (simp add: AddSpan_def proto Let_def st)
  have s: "store ?w' = ?st'" by simp
  have kept: "\<forall>k \<in> dom (traces ?st'). traces ?st' k = traces st k"
    by (auto simp: cleanup_traces split: if_splits)
  have old: "\<forall>r \<in> dom (traces st) - dom (traces ?st'). \<forall>k \<in> dom (traces ?st'). endOf st r \<le> endOf st k"
  proof (cases "\<exists>tid. expired (now sw) st tid")
    case True
    note D = cleanup_retention_pass(1)[OF v1 True]
    show ?thesis
    proof (intro ballI)
      fix r k assume "r \<in> dom (traces st) - dom (traces ?st')" "k \<in> dom (traces ?st')"
      then have "expired (now sw) st r" "\<not> expired (now sw) st k" "k \<in> dom (traces st)"
        unfolding D by auto
      then show "endOf st r \<le> endOf st k" using expired_older by fastforce
    qed
  next
    case False
    then have "\<forall>tid. \<not> expired (now sw) st tid" by blast
    from cleanup_size_pass(2)[OF v1 v2 cap this] show ?thesis .
  qed
  have size: "totalSpans ?st' \<le> maxSpans st \<and> (totalSpans st \<le> maxSpans st \<longrightarrow> ?st' = st) \<and>
               (dom (traces st) - dom (traces ?st') \<noteq> {} \<longrightarrow>
                  (\<exists>r \<in> dom (traces st) - dom (traces ?st').
                     (\<forall>r' \<in> dom (traces st) - dom (traces ?st'). endOf st r' \<le> endOf st r) \<and>
                     maxSpans st < totalSpans ?st' + len_map (Spans (the (traces st r)))))"
    if "\<forall>tid. \<not> expired (now sw) st tid"
    using cleanup_size_pass(1,3,4)[OF v1 v2 cap that] by blast
  have ret: "dom (traces ?st') = dom (traces st) - {tid. expired (now sw) st tid}"
    if "\<exists>tid. expired (now sw) st tid"
    using cleanup_retention_pass(1)[OF v1 that] .
  have one: "totalSpans ?st' \<le> maxSpans st"
    if h: "totalSpans st = maxSpans st + 1 \<and> (\<forall>tid \<in> dom (traces st). 0 < len_map (Spans (the (traces st tid))))"
  proof (cases "\<exists>tid. expired (now sw) st tid")
    case True
    from cleanup_retention_pass(2)[OF v1 True] h show ?thesis by auto
  next
    case False
    then show ?thesis using size by blast
  qed
  show ?thesis
    unfolding run using kept old size ret one by (intro exI[of _ ?w']) (simp only: s, blast)
qed

text \<open>The theorem in the scenario of the claim: a limit of ten, ten spans stored,
  the eleventh arrives, and the sweep removes the trace \<open>0a\<close>, the one that ended
  first.\<close>

theorem size_pass_evicts_oldest_witness:
  "AddSpans exFirstTen \<lparr>heap = ex10Heap,
     store = \<lparr>traces = Map.empty, spansByFile = Map.empty, maxSpans = 10, retention = 0\<rparr>\<rparr> = Some exTen \<and>
   totalSpans (store exTen) = 10 \<and>
   totalSpans (store (insertSpan 11 (exSpan 12 1 []) exTen)) = 11 \<and>
   (\<exists>w'. AddSpan exSweep10 (Some 11) exTen = Some w' \<and>
      totalSpans (store w') \<le> 10 \<and>
      dom (traces (store w')) = {''0b'', ''0c''})"
proof -
  let ?st = "store (insertSpan 11 (exSpan 12 1 []) exTen)"
  have proto: "SpanProto (heap exTen 11) = Some (exSpan 12 1 [])"
    by (simp add: ex10_facts ex10Heap_def exDataAt_def exData_def)
  have d: "dom (traces ?st) = {''0a'', ''0b'', ''0c''}"
    by (auto simp: insertSpan_dom ex10_dom exSpan_def)
  have v1: "visits (traces ?st) (order1 exSweep10)"
    unfolding visits_def d by (auto simp: exSweep10_def)
  have v2: "visits (traces ?st) (order2 exSweep10)"
    unfolding visits_def d by (auto simp: exSweep10_def)
  have mx: "maxSpans ?st = 10" by (simp add: insertSpan_limits ex10_facts)
  have cap: "0 < maxSpans ?st" using mx by simp
  have noex: "\<forall>tid. \<not> expired (now exSweep10) ?st tid"
    by (simp add: expired_def insertSpan_limits ex10_facts split: option.splits)
  from size_pass_evicts_oldest[OF proto refl v1 v2 cap] noex
  obtain w' where w': "AddSpan exSweep10 (Some 11) exTen = Some w'"
     "totalSpans (store w') \<le> maxSpans ?st"
    by blast
  from ex10_last w'(1) have "dom (traces (store w')) = {''0b'', ''0c''}"
    by (simp add: tracesAfter_def)
  with w' mx ex10_mid_total ex10_run ex10_total show ?thesis by simp
qed

section \<open>Search\<close>

lemma digestOf_id [simp]: "TraceID_d (digestOf env h tid trace) = tid"
  by (simp add: digestOf_def Let_def)

lemma hasMatchingFile_visits:
  assumes "visits (Files trace) order"
  shows "hasMatchingFile req trace order \<longleftrightarrow> (\<exists>file \<in> set (Files_rq req). file \<in> dom (Files trace))"
proof -
  have sub: "set order \<subseteq> dom (Files trace)" and eq: "set order = dom (Files trace)"
    using assms by (auto simp: visits_def)
  show ?thesis
    unfolding hasMatchingFile_def range_map_present[OF sub]
    using eq by (auto simp: list_ex_iff)
qed

lemma searchLoop_step:
  assumes "hasMatchingFile req trace (filterOrder env tid)
             \<longleftrightarrow> (\<exists>file \<in> set (Files_rq req). file \<in> dom (Files trace))"
  shows "searchLoop env h req mt ((tid, trace) # rest) found =
           (if \<not> matches req mt trace then searchLoop env h req mt rest found
            else if Limit req > 0 \<and> int (length found) + 1 \<ge> Limit req
                 then found @ [digestOf env h tid trace]
                 else searchLoop env h req mt rest (found @ [digestOf env h tid trace]))"
  using assms by (auto simp: matches_def Let_def)

lemma searchLoop_ids:
  assumes "\<forall>k \<in> set ks. hasMatchingFile req (the (m k)) (filterOrder env k)
              \<longleftrightarrow> (\<exists>file \<in> set (Files_rq req). file \<in> dom (Files (the (m k))))"
    and "Limit req > 0 \<longrightarrow> int (length found) < Limit req"
  shows "map TraceID_d (searchLoop env h req mt (map (\<lambda>k. (k, the (m k))) ks) found) =
           map TraceID_d found @
           (if Limit req > 0
            then take (nat (Limit req) - length found) (filter (\<lambda>k. matches req mt (the (m k))) ks)
            else filter (\<lambda>k. matches req mt (the (m k))) ks)"
  using assms
proof (induction ks arbitrary: found)
  case Nil
  show ?case by simp
next
  case (Cons k ks)
  let ?t = "the (m k)"
  let ?found = "found @ [digestOf env h k ?t]"
  have hm: "hasMatchingFile req ?t (filterOrder env k)
              \<longleftrightarrow> (\<exists>file \<in> set (Files_rq req). file \<in> dom (Files ?t))"
    using Cons.prems(1) by simp
  have rest: "\<forall>k \<in> set ks. hasMatchingFile req (the (m k)) (filterOrder env k)
              \<longleftrightarrow> (\<exists>file \<in> set (Files_rq req). file \<in> dom (Files (the (m k))))"
    using Cons.prems(1) by simp
  have unf: "searchLoop env h req mt (map (\<lambda>k. (k, the (m k))) (k # ks)) found =
           (if \<not> matches req mt ?t then searchLoop env h req mt (map (\<lambda>k. (k, the (m k))) ks) found
            else if Limit req > 0 \<and> int (length found) + 1 \<ge> Limit req
                 then ?found
                 else searchLoop env h req mt (map (\<lambda>k. (k, the (m k))) ks) ?found)"
    using searchLoop_step[OF hm] by simp
  show ?case
  proof (cases "matches req mt ?t")
    case False
    show ?thesis
      unfolding unf using Cons.IH[OF rest Cons.prems(2)] False by simp
  next
    case True
    show ?thesis
    proof (cases "Limit req > 0 \<and> int (length found) + 1 \<ge> Limit req")
      case stop: True
      then have "nat (Limit req) - length found = 1"
        using Cons.prems(2) by auto
      then show ?thesis unfolding unf using True stop by simp
    next
      case go: False
      have lim: "Limit req > 0 \<longrightarrow> int (length ?found) < Limit req" using go by auto
      have "Limit req > 0 \<Longrightarrow> nat (Limit req) - length found = Suc (nat (Limit req) - length ?found)"
        using lim by auto
      then show ?thesis
        unfolding unf using Cons.IH[OF rest lim] True go by auto
    qed
  qed
qed

text \<open>
  C6.  \<open>SearchTraces\<close> returns the digests of the traces that pass the age cutoff, the
  error filter and the file filter, in the order of its loop over the traces, and only
  the first \<open>Limit\<close> of them when \<open>Limit > 0\<close>.  So every returned trace ends within the
  window when there is one, has the status \<open>error\<close> when \<open>ErrorsOnly\<close> is set, touches a
  file of the list when the list is not empty, and at most \<open>Limit\<close> digests are returned
  when \<open>Limit > 0\<close>.
\<close>

theorem search_filters_and_cap:
  assumes vt: "visits (traces (store w)) (traceOrder env)"
    and vf: "\<forall>tid trace. traces (store w) tid = Some trace \<longrightarrow> visits (Files trace) (filterOrder env tid)"
    and mt: "minTime = minTimeOf ParseDuration (now_s env) req"
    and hits: "hits = filter (\<lambda>tid. matches req minTime (the (GetTrace w tid))) (traceOrder env)"
  shows "map TraceID_d (SearchTraces ParseDuration env req w) =
           (if Limit req > 0 then take (nat (Limit req)) hits else hits) \<and>
         (\<forall>d \<in> set (SearchTraces ParseDuration env req w).
            \<exists>trace. GetTrace w (TraceID_d d) = Some trace \<and>
              (IsZero minTime \<or> \<not> EndTime_t trace < minTime) \<and>
              (ErrorsOnly req \<longrightarrow> Status trace = ''error'') \<and>
              (Files_rq req \<noteq> [] \<longrightarrow> (\<exists>file \<in> set (Files_rq req). file \<in> dom (Files trace)))) \<and>
         (Limit req > 0 \<longrightarrow> int (length (SearchTraces ParseDuration env req w)) \<le> Limit req)"
proof -
  let ?m = "traces (store w)"
  let ?res = "SearchTraces ParseDuration env req w"
  have sub: "set (traceOrder env) \<subseteq> dom ?m" using vt by (simp add: visits_def)
  have hm: "\<forall>k \<in> set (traceOrder env). hasMatchingFile req (the (?m k)) (filterOrder env k)
              \<longleftrightarrow> (\<exists>file \<in> set (Files_rq req). file \<in> dom (Files (the (?m k))))"
  proof
    fix k assume "k \<in> set (traceOrder env)"
    then obtain t where "?m k = Some t" using sub by auto
    with vf hasMatchingFile_visits[of t "filterOrder env k" req]
    show "hasMatchingFile req (the (?m k)) (filterOrder env k)
              \<longleftrightarrow> (\<exists>file \<in> set (Files_rq req). file \<in> dom (Files (the (?m k))))" by simp
  qed
  have ids: "map TraceID_d ?res = (if Limit req > 0 then take (nat (Limit req)) hits else hits)"
    unfolding SearchTraces_def range_map_present[OF sub] mt[symmetric]
    using searchLoop_ids[OF hm, of "[]" "heap w" minTime] by (simp add: hits GetTrace_def)
  have inhits: "TraceID_d d \<in> set hits" if "d \<in> set ?res" for d
  proof -
    from that have "TraceID_d d \<in> set (map TraceID_d ?res)" by simp
    then show ?thesis unfolding ids by (auto dest: in_set_takeD split: if_splits)
  qed
  have each: "\<exists>trace. GetTrace w (TraceID_d d) = Some trace \<and>
              (IsZero minTime \<or> \<not> EndTime_t trace < minTime) \<and>
              (ErrorsOnly req \<longrightarrow> Status trace = ''error'') \<and>
              (Files_rq req \<noteq> [] \<longrightarrow> (\<exists>file \<in> set (Files_rq req). file \<in> dom (Files trace)))"
    if "d \<in> set ?res" for d
  proof -
    from inhits[OF that] have k: "TraceID_d d \<in> set (traceOrder env)"
      and m: "matches req minTime (the (GetTrace w (TraceID_d d)))" by (auto simp: hits)
    from k sub obtain t where "GetTrace w (TraceID_d d) = Some t" by (auto simp: GetTrace_def)
    with m show ?thesis by (auto simp: matches_def)
  qed
  have "length ?res = length (map TraceID_d ?res)" by simp
  also have "\<dots> = length (if Limit req > 0 then take (nat (Limit req)) hits else hits)"
    by (simp only: ids)
  finally have len: "Limit req > 0 \<longrightarrow> int (length ?res) \<le> Limit req" by auto
  show ?thesis using ids each len by blast
qed

text \<open>The theorem at the example store: with the limit 1 the search returns the first
  matching trace of its loop, without limit both matching traces.\<close>

lemmas search_example_defs = exSearchWorld_def exSearchHeap_def exContext_def newContext_def
  store_defs example_defs hex_EncodeToString_def hexdigit_def

theorem search_filters_and_cap_witness:
  "map TraceID_d (SearchTraces (\<lambda>_. None) exSearch exRequest exSearchWorld) = [''0d''] \<and>
   map TraceID_d (SearchTraces (\<lambda>_. None) exSearch (exRequest\<lparr>Limit := 0\<rparr>) exSearchWorld) = [''0d'', ''0a'']"
proof -
  have vt: "visits (traces (store exSearchWorld)) (traceOrder exSearch)"
    by (auto simp: visits_def search_example_defs exSearch_def)
  have vf: "\<forall>tid trace. traces (store exSearchWorld) tid = Some trace \<longrightarrow>
              visits (Files trace) (filterOrder exSearch tid)"
    by (auto simp: visits_def search_example_defs exSearch_def split: if_splits)
  have mt: "minTimeOf (\<lambda>_. None) (now_s exSearch) req = zeroTime" if "TimeRange req = []" for req
    using that by (simp add: minTimeOf_def)
  have hits: "filter (\<lambda>tid. matches req zeroTime (the (GetTrace exSearchWorld tid))) (traceOrder exSearch)
           = [''0d'', ''0a'']" if "Files_rq req = [''/p/a.go'']" "ErrorsOnly req" for req
    using that by (simp add: matches_def IsZero_def search_example_defs exSearch_def)
  have a: "map TraceID_d (SearchTraces (\<lambda>_. None) exSearch exRequest exSearchWorld) = [''0d'']"
    using search_filters_and_cap[OF vt vf refl refl, of "\<lambda>_. None" exRequest]
    by (simp add: mt hits exRequest_def)
  have b: "map TraceID_d (SearchTraces (\<lambda>_. None) exSearch (exRequest\<lparr>Limit := 0\<rparr>) exSearchWorld) = [''0d'', ''0a'']"
    using search_filters_and_cap[OF vt vf refl refl, of "\<lambda>_. None" "exRequest\<lparr>Limit := 0\<rparr>"]
    by (simp add: mt hits exRequest_def)
  from a b show ?thesis by simp
qed

section \<open>The analyzer\<close>

lemmas analyzer_defs =
  analyzeEvent_def processStackTrace_def contextOfMatch_def extractFilePathsFromEvent_def
  extractFilePathsFromSpan_def namesFile_def AnalyzeSpan_def
  FindAllStringSubmatch_def fileLineRegex_def isPathChar_def isWord_def isDigit_def wordChars_def
  digitChars_def digitValue_def Atoi_def wrap64_def ToLower_def isASCII_def lowerChar_def
  GetStringValue_def IsAbs_def newContext_def inferOperationFromEvent_def inferOperationFromSpan_def
  operationOfName_def

lemma ex_matches: "FindAllStringSubmatch ''handler.go:42: nil pointer'' = [[''handler.go:42'', ''handler.go'', ''42'']]"
  by (simp add: analyzer_defs)

lemma ex_stack: "stackTraceOf env (Attributes_ev exEvent) = Some ''handler.go:42: nil pointer''"
  by (simp add: exEvent_def analyzer_defs)

lemma ex_atoi: "Atoi ''42'' = 42"
  by (simp add: analyzer_defs)

lemma ex_noattr: "extractFilePathsFromEvent env ca exEvent = Some []"
  by (simp add: exEvent_def analyzer_defs)

lemma ex_clean: "Clean ''./handler.go'' = ''handler.go''" "Clean ''/proj/handler.go'' = ''/proj/handler.go''"
  "Clean ''/proj//x/../handler.go'' = ''/proj/handler.go''"
  by (simp_all add: Clean_def cleanStep_def IsAbs_def)

subsection \<open>What reading the file leaves as it is, and when it panics\<close>

lemma inferFunctionName_keeps [simp]:
  "FilePath (inferFunctionName env c) = FilePath c"
  "Operation (inferFunctionName env c) = Operation c"
  "TraceID (inferFunctionName env c) = TraceID c"
  "SpanID (inferFunctionName env c) = SpanID c"
  "LineStart (inferFunctionName env c) = LineStart c"
  "LineEnd (inferFunctionName env c) = LineEnd c"
  by (simp_all add: inferFunctionName_def Let_def split: list.splits)

lemma enrich_keeps:
  assumes "enrichWithFileContents env c = Some c'"
  shows "FilePath c' = FilePath c" "Operation c' = Operation c" "TraceID c' = TraceID c"
    "SpanID c' = SpanID c"
  using assms
  by (auto simp: enrichWithFileContents_def Let_def split: if_splits bind_splits FileEntry.splits)

lemma enrich_window:
  assumes "0 < LineStart c" "LineStart c < LineEnd c" "wrap64 (LineEnd c - LineStart c) \<le> 50"
    "enrichWithFileContents env c = Some c'"
  shows "LineStart c' = LineStart c \<and> LineEnd c' = LineEnd c"
  using assms
  by (auto simp: enrichWithFileContents_def Let_def split: if_splits bind_splits FileEntry.splits)

lemma enrich_returns:
  "readFile env (FilePath c) \<noteq> StatFails \<Longrightarrow> \<exists>c'. enrichWithFileContents env c = Some c'"
  by (auto simp: enrichWithFileContents_def fileExists_def Let_def split: FileEntry.splits)

lemma enrich_panics:
  "FilePath c \<noteq> [] \<Longrightarrow> readFile env (FilePath c) = StatFails \<Longrightarrow> enrichWithFileContents env c = None"
  by (simp add: enrichWithFileContents_def fileExists_def)


subsection \<open>A joined path ends with its last element\<close>

lemma splitPath_plain: "CHR ''/'' \<notin> set b \<Longrightarrow> splitPath b cur = [cur @ b]"
  by (induction b arbitrary: cur) auto

lemma splitPath_last:
  "CHR ''/'' \<notin> set b \<Longrightarrow> splitPath (a @ CHR ''/'' # b) cur = splitPath a cur @ [b]"
  by (induction a arbitrary: cur) (auto simp: splitPath_plain)

lemma Join_snoc: "Join (xs @ [y]) sep = (if xs = [] then y else Join xs sep @ sep @ y)"
  by (induction xs sep rule: Join.induct) auto

lemma Clean_last:
  assumes "CHR ''/'' \<notin> set b" "b \<noteq> []" "b \<noteq> ''.''" "b \<noteq> ''..''"
  shows "\<exists>pre. Clean (a @ CHR ''/'' # b) = pre @ b"
proof -
  let ?rooted = "IsAbs (a @ CHR ''/'' # b)"
  let ?seen = "fold (cleanStep ?rooted) (splitPath a []) []"
  have "fold (cleanStep ?rooted) (splitPath (a @ CHR ''/'' # b) []) [] = b # ?seen"
    using assms by (simp add: splitPath_last cleanStep_def)
  then have "Clean (a @ CHR ''/'' # b) =
         (if ?rooted then ''/'' else []) @ Join (rev ?seen @ [b]) ''/''"
    using assms(2) by (simp add: Clean_def Let_def Join_snoc)
  then show ?thesis by (simp add: Join_snoc)
qed

lemma ex_join_suffix: "\<exists>pre. filepath_Join root ''handler.go'' = pre @ ''handler.go''"
proof (cases "root = []")
  case True
  then show ?thesis by (simp add: filepath_Join_def Clean_def cleanStep_def IsAbs_def)
next
  case False
  have "\<exists>pre. Clean (root @ CHR ''/'' # ''handler.go'') = pre @ ''handler.go''"
    by (rule Clean_last) simp_all
  with False show ?thesis by (simp add: filepath_Join_def)
qed

subsection \<open>The event of the stack trace scenario\<close>

lemma ex_process:
  "processStackTrace env ca exEvent =
     (if isFileInProject ca (filepath_Join (projectRoot ca) ''handler.go'')
      then map_option (\<lambda>c. [c])
             (enrichWithFileContents env
                (newContext\<lparr>FilePath := filepath_Join (projectRoot ca) ''handler.go'', LineStart := 42,
                            LineEnd := 52, Operation := ''exception''\<rparr>))
      else Some [])"
  by (simp add: processStackTrace_def ex_stack ex_matches contextOfMatch_def ex_atoi IsAbs_def
        wrap64_def Let_def map_option_case split: option.splits)

lemma ex_analyze:
  "AnalyzeSpan env ca span [Some exEvent] =
     do { fileContexts \<leftarrow> extractFilePathsFromSpan env ca span;
          contexts \<leftarrow> processStackTrace env ca exEvent;
          Some (fileContexts @ contexts) }"
proof -
  have "Name_ev exEvent = ''exception''" by (simp add: exEvent_def)
  then have "analyzeEvents env ca [Some exEvent] = processStackTrace env ca exEvent"
    by (simp add: analyzeEvent_def ex_noattr)
  then show ?thesis by (simp add: AnalyzeSpan_def)
qed

text \<open>
  What the analyzer returns for a span whose only event is the event named
  \<open>exception\<close> with the attribute \<open>stack_trace = "handler.go:42: nil pointer"\<close>.  The
  path \<open>handler.go\<close> joined to the project root ends in \<open>handler.go\<close> (and is
  \<open>handler.go\<close> when no root is configured).  When the joined path starts with the
  project root as configured and \<open>os.Stat\<close> does not fail on it for another reason
  than that it names no file, the analyzer returns, after the contexts of the span's
  own attributes, exactly one context, with that path, \<open>LineStart\<close> 42, \<open>LineEnd\<close> 52
  and the operation \<open>exception\<close>.  When \<open>os.Stat\<close> fails so, the analyzer panics.  When
  the joined path does not start with the root as configured, the analyzer returns no
  context for the event.
\<close>

lemma exception_event_contexts:
  assumes "fp = filepath_Join (projectRoot ca) ''handler.go''"
  shows "(\<exists>pre. fp = pre @ ''handler.go'') \<and>
         (projectRoot ca = [] \<longrightarrow> fp = ''handler.go'' \<and> isFileInProject ca fp) \<and>
         (isFileInProject ca fp \<and> readFile env fp \<noteq> StatFails \<longrightarrow>
            (\<exists>c. AnalyzeSpan env ca span [Some exEvent] =
                    map_option (\<lambda>cs. cs @ [c]) (extractFilePathsFromSpan env ca span) \<and>
                  FilePath c = fp \<and> LineStart c = 42 \<and> LineEnd c = 52 \<and>
                  Operation c = ''exception'')) \<and>
         (isFileInProject ca fp \<and> readFile env fp = StatFails \<longrightarrow>
            AnalyzeSpan env ca span [Some exEvent] = None) \<and>
         (\<not> isFileInProject ca fp \<longrightarrow>
            AnalyzeSpan env ca span [Some exEvent] = extractFilePathsFromSpan env ca span)"
proof -
  let ?c0 = "newContext\<lparr>FilePath := fp, LineStart := 42, LineEnd := 52, Operation := ''exception''\<rparr>"
  have suf: "\<exists>pre. fp = pre @ ''handler.go''"
    unfolding assms(1) by (rule ex_join_suffix)
  then have ne: "FilePath ?c0 \<noteq> []" by auto
  have empty: "fp = ''handler.go'' \<and> isFileInProject ca fp" if "projectRoot ca = []"
    using that by (simp add: assms(1) filepath_Join_def Clean_def cleanStep_def IsAbs_def isFileInProject_def)
  have one: "\<exists>c. AnalyzeSpan env ca span [Some exEvent] =
                    map_option (\<lambda>cs. cs @ [c]) (extractFilePathsFromSpan env ca span) \<and>
                  FilePath c = fp \<and> LineStart c = 42 \<and> LineEnd c = 52 \<and> Operation c = ''exception''"
    if "isFileInProject ca fp \<and> readFile env fp \<noteq> StatFails"
  proof -
    from that enrich_returns[of env ?c0] obtain c where c: "enrichWithFileContents env ?c0 = Some c"
      by auto
    have "LineStart c = LineStart ?c0 \<and> LineEnd c = LineEnd ?c0"
      by (rule enrich_window[OF _ _ _ c]) (simp_all add: wrap64_def)
    moreover have "FilePath c = FilePath ?c0" "Operation c = Operation ?c0"
      using enrich_keeps[OF c] by simp_all
    moreover have "AnalyzeSpan env ca span [Some exEvent] =
        map_option (\<lambda>cs. cs @ [c]) (extractFilePathsFromSpan env ca span)"
      using that c unfolding ex_analyze ex_process assms(1)[symmetric]
      by (simp add: map_option_case split: option.splits)
    ultimately show ?thesis by (intro exI[of _ c]) simp
  qed
  have panic: "AnalyzeSpan env ca span [Some exEvent] = None"
    if "isFileInProject ca fp \<and> readFile env fp = StatFails"
    using that enrich_panics[of ?c0 env] ne unfolding ex_analyze ex_process assms(1)[symmetric]
    by (simp split: option.splits)
  have none: "AnalyzeSpan env ca span [Some exEvent] = extractFilePathsFromSpan env ca span"
    if "\<not> isFileInProject ca fp"
    using that unfolding ex_analyze ex_process assms(1)[symmetric] by (simp split: option.splits)
  show ?thesis using suf empty one panic none by blast
qed

text \<open>With the project root \<open>/proj\<close> and no files, the one context.\<close>

lemma exception_event_in_project:
  "\<exists>c. AnalyzeSpan exEnv \<lparr>projectRoot = ''/proj''\<rparr> (Some (exSpan 1 1 [])) [Some exEvent] = Some [c] \<and>
        FilePath c = ''/proj/handler.go'' \<and> LineStart c = 42 \<and> LineEnd c = 52 \<and>
        Operation c = ''exception''"
proof -
  have fp: "filepath_Join (projectRoot \<lparr>projectRoot = ''/proj''\<rparr>) ''handler.go'' = ''/proj/handler.go''"
    by (simp add: filepath_Join_def Clean_def cleanStep_def IsAbs_def)
  have inp: "isFileInProject \<lparr>projectRoot = ''/proj''\<rparr> ''/proj/handler.go''"
    by (simp add: isFileInProject_def)
  have at: "extractFilePathsFromSpan exEnv \<lparr>projectRoot = ''/proj''\<rparr> (Some (exSpan 1 1 [])) = Some []"
    by (simp add: extractFilePathsFromSpan_def exSpan_def)
  have st: "readFile exEnv ''/proj/handler.go'' \<noteq> StatFails" by (simp add: exEnv_def)
  from exception_event_contexts[OF fp[symmetric], of exEnv "Some (exSpan 1 1 [])"] inp at st
  show ?thesis by auto
qed

text \<open>With a project root that is a regular file, \<open>os.Stat\<close> of the joined path fails
  with an error that is not \<open>not exist\<close>, and \<open>fileExists\<close> panics.\<close>

lemma stat_error_panics:
  "AnalyzeSpan exFileRootEnv \<lparr>projectRoot = ''/etc/passwd''\<rparr> (Some (exSpan 1 1 [])) [Some exEvent] = None"
proof -
  have fp: "filepath_Join (projectRoot \<lparr>projectRoot = ''/etc/passwd''\<rparr>) ''handler.go'' = ''/etc/passwd/handler.go''"
    by (simp add: filepath_Join_def Clean_def cleanStep_def IsAbs_def)
  have inp: "isFileInProject \<lparr>projectRoot = ''/etc/passwd''\<rparr> ''/etc/passwd/handler.go''"
    by (simp add: isFileInProject_def)
  have st: "readFile exFileRootEnv ''/etc/passwd/handler.go'' = StatFails" by (simp add: exFileRootEnv_def)
  from exception_event_contexts[OF fp[symmetric], of exFileRootEnv "Some (exSpan 1 1 [])"] inp st
  show ?thesis by blast
qed

text \<open>
  C9 fails on the code.  With the project root \<open>.\<close>, \<open>filepath.Join\<close> returns the
  cleaned path \<open>handler.go\<close>; \<open>isFileInProject\<close> tests whether the path starts with the
  root as it was configured, \<open>.\<close>, which it does not, and \<open>processStackTrace\<close> drops the
  match: the analyzer returns no context for the event.
\<close>

theorem stack_trace_context_dropped:
  "filepath_Join ''.'' ''handler.go'' = ''handler.go'' \<and>
   \<not> isFileInProject \<lparr>projectRoot = ''.''\<rparr> ''handler.go'' \<and>
   AnalyzeSpan exEnv \<lparr>projectRoot = ''.''\<rparr> (Some (exSpan 1 1 [])) [Some exEvent] = Some []"
  by (simp add: analyzer_defs exEvent_def exSpan_def filepath_Join_def Clean_def
        cleanStep_def isFileInProject_def)

subsection \<open>The ids of the contexts\<close>

lemma GetFileTraces_fold:
  "fold (\<lambda>sc result. result(TraceID sc \<mapsto> slice_at result (TraceID sc) @ [sc])) xs r tid =
     (if filter (\<lambda>c. TraceID c = tid) xs = [] then r tid
      else Some (slice_at r tid @ filter (\<lambda>c. TraceID c = tid) xs))"
  by (induction xs arbitrary: r) (auto simp: slice_at_def)

lemma GetFileTraces_groups:
  "GetFileTraces w path tid =
     (if filter (\<lambda>c. TraceID c = tid) (slice_at (spansByFile (store w)) path) = [] then None
      else Some (filter (\<lambda>c. TraceID c = tid) (slice_at (spansByFile (store w)) path)))"
  unfolding GetFileTraces_def GetFileTraces_fold by (simp add: slice_at_def)

lemma spanAttributes_ids:
  "spanAttributes env ca span attrs = Some cs \<Longrightarrow> c \<in> set cs \<Longrightarrow>
   TraceID c = hex_EncodeToString (TraceId span) \<and> SpanID c = hex_EncodeToString (SpanId span)"
proof (induction env ca span attrs arbitrary: cs rule: spanAttributes.induct)
  case (3 env ca span attr attrs)
  show ?case
  proof (cases "namesFile env ca attr")
    case True
    with 3(3) obtain operation c0 rest where
      c0: "enrichWithFileContents env
             (newContext\<lparr>FilePath := GetStringValue attr,
                         SpanID := hex_EncodeToString (SpanId span),
                         TraceID := hex_EncodeToString (TraceId span),
                         Operation := operation\<rparr>) = Some c0"
      and rest: "spanAttributes env ca span attrs = Some rest" and cs: "cs = c0 # rest"
      and op: "inferOperationFromSpan env span = Some operation"
      by (auto split: bind_splits)
    from enrich_keeps[OF c0] have "TraceID c0 = hex_EncodeToString (TraceId span)"
      "SpanID c0 = hex_EncodeToString (SpanId span)" by simp_all
    with 3(1)[OF True op c0 rest] 3(4) cs show ?thesis by auto
  next
    case False
    with 3(2)[OF False] 3(3,4) show ?thesis by simp
  qed
qed simp_all

lemma eventAttributes_ids:
  "eventAttributes env ca event attrs = Some cs \<Longrightarrow> c \<in> set cs \<Longrightarrow> TraceID c = [] \<and> SpanID c = []"
proof (induction env ca event attrs arbitrary: cs rule: eventAttributes.induct)
  case (3 env ca event attr attrs)
  show ?case
  proof (cases "namesFile env ca attr")
    case True
    with 3(3) obtain operation c0 rest where
      c0: "enrichWithFileContents env
             (newContext\<lparr>FilePath := GetStringValue attr, Operation := operation\<rparr>) = Some c0"
      and rest: "eventAttributes env ca event attrs = Some rest" and cs: "cs = c0 # rest"
      and op: "inferOperationFromEvent env event = Some operation"
      by (auto split: bind_splits)
    from enrich_keeps[OF c0] have "TraceID c0 = []" "SpanID c0 = []"
      by (simp_all add: newContext_def)
    with 3(1)[OF True op c0 rest] 3(4) cs show ?thesis by auto
  next
    case False
    with 3(2)[OF False] 3(3,4) show ?thesis by simp
  qed
qed simp_all

lemma contextOfMatch_ids:
  "contextOfMatch env ca m = Some cs \<Longrightarrow> c \<in> set cs \<Longrightarrow> TraceID c = [] \<and> SpanID c = []"
proof -
  assume a: "contextOfMatch env ca m = Some cs" "c \<in> set cs"
  then obtain c0 where "enrichWithFileContents env c0 = Some c" "TraceID c0 = []" "SpanID c0 = []"
    by (auto simp: contextOfMatch_def Let_def newContext_def split: if_splits bind_splits)
  with enrich_keeps(3,4)[of env c0 c] show ?thesis by simp
qed

lemma stackMatches_ids:
  "stackMatches env ca ms = Some cs \<Longrightarrow> c \<in> set cs \<Longrightarrow> TraceID c = [] \<and> SpanID c = []"
proof (induction ms arbitrary: cs)
  case (Cons m ms)
  then show ?case by (auto split: bind_splits dest: contextOfMatch_ids)
qed simp

lemma stack_contexts_ids:
  "processStackTrace env ca event = Some cs \<Longrightarrow> c \<in> set cs \<Longrightarrow> TraceID c = [] \<and> SpanID c = []"
  by (auto simp: processStackTrace_def split: bind_splits if_splits dest: stackMatches_ids)

lemma event_contexts_ids:
  "extractFilePathsFromEvent env ca event = Some cs \<Longrightarrow> c \<in> set cs \<Longrightarrow> TraceID c = [] \<and> SpanID c = []"
  unfolding extractFilePathsFromEvent_def by (rule eventAttributes_ids)

lemma analyzeEvent_ids:
  "analyzeEvent env ca event = Some cs \<Longrightarrow> c \<in> set cs \<Longrightarrow> TraceID c = [] \<and> SpanID c = []"
  by (auto simp: analyzeEvent_def split: option.splits bind_splits if_splits
        dest: stack_contexts_ids event_contexts_ids)

lemma analyzeEvents_ids:
  "analyzeEvents env ca events = Some cs \<Longrightarrow> c \<in> set cs \<Longrightarrow> TraceID c = [] \<and> SpanID c = []"
proof (induction events arbitrary: cs)
  case (Cons e es)
  then show ?case by (auto split: bind_splits dest: analyzeEvent_ids)
qed simp

subsection \<open>One context for every attribute that names a file\<close>

lemma spanAttributes_paths:
  "spanAttributes env ca span (map Some attrs) = Some cs \<Longrightarrow>
   map FilePath cs = map GetStringValue (filter (namesFile env ca) attrs)"
proof (induction attrs arbitrary: cs)
  case (Cons attr attrs)
  then show ?case by (auto split: bind_splits if_splits dest: enrich_keeps(1))
qed simp

lemma eventAttributes_paths:
  "eventAttributes env ca event (map Some attrs) = Some cs \<Longrightarrow>
   map FilePath cs = map GetStringValue (filter (namesFile env ca) attrs)"
proof (induction attrs arbitrary: cs)
  case (Cons attr attrs)
  then show ?case by (auto split: bind_splits if_splits dest: enrich_keeps(1))
qed simp

subsection \<open>Without nil pointers and errors of \<open>os.Stat\<close>, no panic\<close>

lemma notNone_map_Some: "list_all (\<lambda>x. x \<noteq> None) xs \<Longrightarrow> \<exists>ys. xs = map Some ys"
proof (induction xs)
  case (Cons x xs)
  then obtain y ys where "x = Some y" "xs = map Some ys" by auto
  then have "x # xs = map Some (y # ys)" by simp
  then show ?case by (rule exI)
qed simp

lemma operationOfAttributes_returns: "\<exists>operation. operationOfAttributes env (map Some attrs) = Some operation"
  by (induction attrs) (auto simp: Let_def)

lemma enrich_None_iff:
  "enrichWithFileContents env c = None \<longleftrightarrow> FilePath c \<noteq> [] \<and> readFile env (FilePath c) = StatFails"
  by (auto simp: enrichWithFileContents_def fileExists_def Let_def split: FileEntry.splits)

lemma namesFile_value: "namesFile env ca attr \<Longrightarrow> GetStringValue attr \<noteq> []"
  by (simp add: namesFile_def)

lemma spanAttributes_nil: "None \<in> set attrs \<Longrightarrow> spanAttributes env ca span attrs = None"
  by (induction env ca span attrs rule: spanAttributes.induct) (auto split: bind_splits)

lemma eventAttributes_nil: "None \<in> set attrs \<Longrightarrow> eventAttributes env ca event attrs = None"
  by (induction env ca event attrs rule: eventAttributes.induct) (auto split: bind_splits)

lemma spanAttributes_None_iff:
  assumes "inferOperationFromSpan env span = Some operation"
  shows "spanAttributes env ca span (map Some attrs) = None \<longleftrightarrow>
         (\<exists>attr \<in> set attrs. namesFile env ca attr \<and> readFile env (GetStringValue attr) = StatFails)"
proof (induction attrs)
  case (Cons attr attrs)
  show ?case
  proof (cases "namesFile env ca attr")
    case True
    let ?c = "newContext\<lparr>FilePath := GetStringValue attr,
                         SpanID := hex_EncodeToString (SpanId span),
                         TraceID := hex_EncodeToString (TraceId span),
                         Operation := operation\<rparr>"
    have "enrichWithFileContents env ?c = None \<longleftrightarrow> readFile env (GetStringValue attr) = StatFails"
      using namesFile_value[OF True] by (simp add: enrich_None_iff)
    with True Cons assms show ?thesis
      by (cases "enrichWithFileContents env ?c") (auto split: bind_splits)
  next
    case False
    with Cons show ?thesis by simp
  qed
qed simp

lemma eventAttributes_None_iff:
  assumes "inferOperationFromEvent env event = Some operation"
  shows "eventAttributes env ca event (map Some attrs) = None \<longleftrightarrow>
         (\<exists>attr \<in> set attrs. namesFile env ca attr \<and> readFile env (GetStringValue attr) = StatFails)"
proof (induction attrs)
  case (Cons attr attrs)
  show ?case
  proof (cases "namesFile env ca attr")
    case True
    let ?c = "newContext\<lparr>FilePath := GetStringValue attr, Operation := operation\<rparr>"
    have "enrichWithFileContents env ?c = None \<longleftrightarrow> readFile env (GetStringValue attr) = StatFails"
      using namesFile_value[OF True] by (simp add: enrich_None_iff)
    with True Cons assms show ?thesis
      by (cases "enrichWithFileContents env ?c") (auto split: bind_splits)
  next
    case False
    with Cons show ?thesis by simp
  qed
qed simp

lemma inferOperationFromSpan_returns:
  "Attributes span = map Some attrs \<Longrightarrow> \<exists>operation. inferOperationFromSpan env span = Some operation"
  using operationOfAttributes_returns[of env attrs]
  by (cases "operationOfName (ToLower (unicodeLower env) (Name span))")
     (simp_all add: inferOperationFromSpan_def)

lemma inferOperationFromEvent_returns:
  "Attributes_ev event = map Some attrs \<Longrightarrow> \<exists>operation. inferOperationFromEvent env event = Some operation"
  using operationOfAttributes_returns[of env attrs]
  by (cases "operationOfName (ToLower (unicodeLower env) (Name_ev event))")
     (simp_all add: inferOperationFromEvent_def Let_def)

text \<open>\<open>extractFilePathsFromSpan\<close> and \<open>extractFilePathsFromEvent\<close> panic exactly when an
  attribute is nil or \<open>os.Stat\<close> fails so for the value of an attribute that names a
  file; otherwise they return one context for every such attribute.\<close>

lemma extractFilePathsFromSpan_panics:
  "extractFilePathsFromSpan env ca None = None"
  "None \<in> set (Attributes span) \<Longrightarrow> extractFilePathsFromSpan env ca (Some span) = None"
  "Attributes span = map Some attrs \<Longrightarrow>
   extractFilePathsFromSpan env ca (Some span) = None \<longleftrightarrow>
     (\<exists>attr \<in> set attrs. namesFile env ca attr \<and> readFile env (GetStringValue attr) = StatFails)"
proof -
  show "extractFilePathsFromSpan env ca None = None" by (simp add: extractFilePathsFromSpan_def)
  show "extractFilePathsFromSpan env ca (Some span) = None" if "None \<in> set (Attributes span)"
    using that by (simp add: extractFilePathsFromSpan_def spanAttributes_nil)
  show "extractFilePathsFromSpan env ca (Some span) = None \<longleftrightarrow>
     (\<exists>attr \<in> set attrs. namesFile env ca attr \<and> readFile env (GetStringValue attr) = StatFails)"
    if a: "Attributes span = map Some attrs"
  proof -
    from inferOperationFromSpan_returns[OF a] obtain operation where
      "inferOperationFromSpan env span = Some operation" by blast
    from spanAttributes_None_iff[OF this] a show ?thesis by (simp add: extractFilePathsFromSpan_def)
  qed
qed

lemma extractFilePathsFromEvent_panics:
  "None \<in> set (Attributes_ev event) \<Longrightarrow> extractFilePathsFromEvent env ca event = None"
  "Attributes_ev event = map Some attrs \<Longrightarrow>
   extractFilePathsFromEvent env ca event = None \<longleftrightarrow>
     (\<exists>attr \<in> set attrs. namesFile env ca attr \<and> readFile env (GetStringValue attr) = StatFails)"
proof -
  show "extractFilePathsFromEvent env ca event = None" if "None \<in> set (Attributes_ev event)"
    using that by (simp add: extractFilePathsFromEvent_def eventAttributes_nil)
  show "extractFilePathsFromEvent env ca event = None \<longleftrightarrow>
     (\<exists>attr \<in> set attrs. namesFile env ca attr \<and> readFile env (GetStringValue attr) = StatFails)"
    if a: "Attributes_ev event = map Some attrs"
  proof -
    from inferOperationFromEvent_returns[OF a] obtain operation where
      "inferOperationFromEvent env event = Some operation" by blast
    from eventAttributes_None_iff[OF this] a show ?thesis by (simp add: extractFilePathsFromEvent_def)
  qed
qed

lemma extractFilePathsFromSpan_returns:
  assumes "Attributes span = map Some attrs"
    "\<forall>attr \<in> set attrs. namesFile env ca attr \<longrightarrow> readFile env (GetStringValue attr) \<noteq> StatFails"
  shows "\<exists>cs. extractFilePathsFromSpan env ca (Some span) = Some cs \<and>
              map FilePath cs = map GetStringValue (filter (namesFile env ca) attrs)"
proof -
  from extractFilePathsFromSpan_panics(3)[OF assms(1), of env ca] assms(2)
  obtain cs where cs: "extractFilePathsFromSpan env ca (Some span) = Some cs" by auto
  then have "spanAttributes env ca span (map Some attrs) = Some cs"
    using assms(1) by (simp add: extractFilePathsFromSpan_def)
  from spanAttributes_paths[OF this] cs show ?thesis by simp
qed

lemma extractFilePathsFromEvent_returns:
  assumes "Attributes_ev event = map Some attrs"
    "\<forall>attr \<in> set attrs. namesFile env ca attr \<longrightarrow> readFile env (GetStringValue attr) \<noteq> StatFails"
  shows "\<exists>cs. extractFilePathsFromEvent env ca event = Some cs \<and>
              map FilePath cs = map GetStringValue (filter (namesFile env ca) attrs)"
proof -
  from extractFilePathsFromEvent_panics(2)[OF assms(1), of env ca] assms(2)
  obtain cs where cs: "extractFilePathsFromEvent env ca event = Some cs" by auto
  then have "eventAttributes env ca event (map Some attrs) = Some cs"
    using assms(1) by (simp add: extractFilePathsFromEvent_def)
  from eventAttributes_paths[OF this] cs show ?thesis by simp
qed

lemma stackTraceOf_returns: "\<exists>s. stackTraceOf env (map Some attrs) = Some s"
  by (induction attrs) auto

lemma contextOfMatch_returns:
  "\<forall>f. readFile env f \<noteq> StatFails \<Longrightarrow> \<exists>cs. contextOfMatch env ca m = Some cs"
proof -
  assume a: "\<forall>f. readFile env f \<noteq> StatFails"
  have "\<exists>c'. enrichWithFileContents env c = Some c'" for c
    using a enrich_returns by blast
  then show ?thesis
    by (simp add: contextOfMatch_def Let_def) (metis bind.bind_lunit)
qed

lemma stackMatches_returns:
  "\<forall>f. readFile env f \<noteq> StatFails \<Longrightarrow> \<exists>cs. stackMatches env ca ms = Some cs"
proof (induction ms)
  case (Cons m ms)
  from Cons obtain cs where cs: "stackMatches env ca ms = Some cs" by blast
  from contextOfMatch_returns[OF Cons(2)] obtain c where "contextOfMatch env ca m = Some c" by blast
  with cs show ?case by simp
qed simp

lemma processStackTrace_returns:
  assumes "\<forall>f. readFile env f \<noteq> StatFails" "Attributes_ev event = map Some attrs"
  shows "\<exists>cs. processStackTrace env ca event = Some cs"
proof -
  from stackTraceOf_returns[of env attrs] assms(2)
  obtain s where s: "stackTraceOf env (Attributes_ev event) = Some s" by auto
  from stackMatches_returns[OF assms(1)] obtain cs where
    "stackMatches env ca (FindAllStringSubmatch s) = Some cs" by blast
  with s show ?thesis by (simp add: processStackTrace_def)
qed

lemma analyzeEvents_returns:
  assumes "\<forall>f. readFile env f \<noteq> StatFails"
  shows "list_all (\<lambda>event. case event of
                          None \<Rightarrow> False
                        | Some ev \<Rightarrow> list_all (\<lambda>attr. attr \<noteq> None) (Attributes_ev ev)) events \<Longrightarrow>
         \<exists>cs. analyzeEvents env ca events = Some cs"
proof (induction events)
  case (Cons event events)
  then obtain cs where cs: "analyzeEvents env ca events = Some cs" by auto
  from Cons(2) obtain ev where ev: "event = Some ev" "list_all (\<lambda>attr. attr \<noteq> None) (Attributes_ev ev)"
    by (auto split: option.splits)
  from notNone_map_Some[OF ev(2)] obtain attrs where attrs: "Attributes_ev ev = map Some attrs" by blast
  from processStackTrace_returns[OF assms attrs] obtain st where
    st: "processStackTrace env ca ev = Some st" by blast
  from extractFilePathsFromEvent_returns[OF attrs] assms obtain fo where
    fo: "extractFilePathsFromEvent env ca ev = Some fo" by blast
  from st fo have "\<exists>c. analyzeEvent env ca event = Some c"
    by (simp add: analyzeEvent_def ev(1))
  with cs show ?case by auto
qed simp

lemma ex_io: "analyzeEvent exEnv exCa (Some exIoEvent) = Some [exIoContext]"
  by (simp add: analyzer_defs exIoEvent_def exCa_def exEnv_def exIoContext_def isFileInProject_def
       enrichWithFileContents_def fileExists_def Let_def)

lemma ex_file: "extractFilePathsFromSpan exEnv exCa (Some exFileSpan) = Some [exFileContext]"
  by (simp add: analyzer_defs exFileSpan_def exSpan_def exCa_def exEnv_def exFileContext_def
       isFileInProject_def enrichWithFileContents_def fileExists_def Let_def
       hex_EncodeToString_def hexdigit_def)


text \<open>A key that is not ASCII goes through the case tables: the key \<open>stac\<close>, Kelvin sign,
  \<open>_trace\<close>, which they lower to \<open>stack_trace\<close>, is the key of a stack trace.\<close>

lemma kelvin_key_is_stack_trace:
  assumes "unicodeLower env (''stac'' @ [CHR 0xE2, CHR 0x84, CHR 0xAA] @ ''_trace'') = ''stack_trace''"
  shows "stackTraceOf env
           [Some \<lparr>Key = ''stac'' @ [CHR 0xE2, CHR 0x84, CHR 0xAA] @ ''_trace'',
                   Value = Some (StringValue s)\<rparr>] = Some s"
proof -
  have "\<not> isASCII (''stac'' @ [CHR 0xE2, CHR 0x84, CHR 0xAA] @ ''_trace'')"
    by (simp add: isASCII_def)
  with assms show ?thesis by (simp add: ToLower_def GetStringValue_def)
qed

lemma ex_stack_context: "analyzeEvent exEnv exCa (Some exEvent) = Some [exStackContext]"
  by (simp add: analyzeEvent_def ex_noattr ex_process exCa_def exEnv_def exStackContext_def
        filepath_Join_def Clean_def cleanStep_def IsAbs_def isFileInProject_def
        enrichWithFileContents_def fileExists_def newContext_def)
     (simp add: exEvent_def)

text \<open>
  C10.  The contexts from span attributes carry the hex ids of the span; the contexts
  from event attributes and from a stack trace have an empty \<open>TraceID\<close> and an empty
  \<open>SpanID\<close>.  A span and an event without nil attributes yield one context for every
  attribute that names a file, in the order of the attributes, with the value of the
  attribute as its path, unless \<open>os.Stat\<close> fails for such a value for another reason
  than that it names no file.  \<open>GetFileTraces\<close> returns, under the key of the empty string,
  the contexts of the file's bucket with an empty \<open>TraceID\<close>, in the order of the
  bucket.  And \<open>HandleSpan\<close> for a span and events without nil pointers (here without
  limits, so that the sweep is idle) returns with every context of the span's
  attributes in the group of the span's trace id, and every context of the events in
  the group of the empty string, of the context's file.
\<close>

theorem ids_only_from_span_attributes:
  "(extractFilePathsFromSpan env ca (Some span) = Some scs \<longrightarrow>
      (\<forall>c \<in> set scs. TraceID c = hex_EncodeToString (TraceId span) \<and>
                       SpanID c = hex_EncodeToString (SpanId span))) \<and>
   (extractFilePathsFromEvent env ca event = Some ecs \<longrightarrow>
      (\<forall>c \<in> set ecs. TraceID c = [] \<and> SpanID c = [])) \<and>
   (processStackTrace env ca sevent = Some tcs \<longrightarrow>
      (\<forall>c \<in> set tcs. TraceID c = [] \<and> SpanID c = [])) \<and>
   (Attributes span = map Some attrs \<and>
    (\<forall>attr \<in> set attrs. namesFile env ca attr \<longrightarrow> readFile env (GetStringValue attr) \<noteq> StatFails) \<longrightarrow>
      (\<exists>cs. extractFilePathsFromSpan env ca (Some span) = Some cs \<and>
            map FilePath cs = map GetStringValue (filter (namesFile env ca) attrs))) \<and>
   (Attributes_ev event = map Some eattrs \<and>
    (\<forall>attr \<in> set eattrs. namesFile env ca attr \<longrightarrow> readFile env (GetStringValue attr) \<noteq> StatFails) \<longrightarrow>
      (\<exists>cs. extractFilePathsFromEvent env ca event = Some cs \<and>
            map FilePath cs = map GetStringValue (filter (namesFile env ca) eattrs))) \<and>
   GetFileTraces w path [] =
     (if filter (\<lambda>c. TraceID c = []) (slice_at (spansByFile (store w)) path) = [] then None
      else Some (filter (\<lambda>c. TraceID c = []) (slice_at (spansByFile (store w)) path))) \<and>
   ((\<forall>f. readFile env f \<noteq> StatFails) \<and> noNil span events \<and>
    maxSpans (store w) \<le> 0 \<and> retention (store w) \<le> 0 \<longrightarrow>
      (\<exists>cs ds w'.
         extractFilePathsFromSpan env ca (Some span) = Some cs \<and>
         analyzeEvents env ca events = Some ds \<and>
         HandleSpan env ca sw p (Some span) events w = Some w' \<and>
         (\<forall>c \<in> set cs. \<exists>g. GetFileTraces w' (FilePath c) (hex_EncodeToString (TraceId span)) = Some g \<and>
                               c \<in> set g) \<and>
         (\<forall>c \<in> set ds. TraceID c = [] \<and> SpanID c = [] \<and>
                          (\<exists>g. GetFileTraces w' (FilePath c) [] = Some g \<and> c \<in> set g))))"
proof -
  have grp: "\<exists>g. GetFileTraces v f tid = Some g \<and> c \<in> set g"
    if "c \<in> set (slice_at (spansByFile (store v)) f)" "TraceID c = tid" for v f c tid
  proof -
    from that have "c \<in> set (filter (\<lambda>c. TraceID c = tid) (slice_at (spansByFile (store v)) f))" by simp
    then show ?thesis by (auto simp: GetFileTraces_groups filter_empty_conv)
  qed
  have handle: "\<exists>cs ds w'.
         extractFilePathsFromSpan env ca (Some span) = Some cs \<and>
         analyzeEvents env ca events = Some ds \<and>
         HandleSpan env ca sw p (Some span) events w = Some w' \<and>
         (\<forall>c \<in> set cs. \<exists>g. GetFileTraces w' (FilePath c) (hex_EncodeToString (TraceId span)) = Some g \<and>
                               c \<in> set g) \<and>
         (\<forall>c \<in> set ds. TraceID c = [] \<and> SpanID c = [] \<and>
                          (\<exists>g. GetFileTraces w' (FilePath c) [] = Some g \<and> c \<in> set g))"
    if h: "(\<forall>f. readFile env f \<noteq> StatFails) \<and> noNil span events \<and>
           maxSpans (store w) \<le> 0 \<and> retention (store w) \<le> 0"
  proof -
    from h have stat: "\<forall>f. readFile env f \<noteq> StatFails" by blast
    from h notNone_map_Some obtain attrs where attrs: "Attributes span = map Some attrs"
      unfolding noNil_def by blast
    from extractFilePathsFromSpan_returns[OF attrs, of env ca] stat obtain cs where
      cs: "extractFilePathsFromSpan env ca (Some span) = Some cs" by blast
    from h analyzeEvents_returns[OF stat, of events ca] obtain ds where
      ds: "analyzeEvents env ca events = Some ds" unfolding noNil_def by blast
    let ?w0 = "w\<lparr>heap := (heap w)(p := newSpanData span events (cs @ ds))\<rparr>"
    let ?w' = "insertSpan p span ?w0"
    have an: "AnalyzeSpan env ca (Some span) events = Some (cs @ ds)"
      by (simp add: AnalyzeSpan_def cs ds)
    have "AddSpan sw (Some p) ?w0 = Some ?w'"
      using h by (intro AddSpan_nolimit) (simp_all add: newSpanData_def)
    then have run: "HandleSpan env ca sw p (Some span) events w = Some ?w'"
      by (simp add: HandleSpan_def an)
    have bucket: "c \<in> set (slice_at (spansByFile (store ?w')) (FilePath c))"
      if "c \<in> set (cs @ ds)" for c
      using that by (simp add: insertSpan_byFile newSpanData_def)
    have a: "\<exists>g. GetFileTraces ?w' (FilePath c) (hex_EncodeToString (TraceId span)) = Some g \<and> c \<in> set g"
      if c: "c \<in> set cs" for c
    proof -
      from cs have "spanAttributes env ca span (Attributes span) = Some cs"
        by (simp add: extractFilePathsFromSpan_def)
      from spanAttributes_ids[OF this c] have "TraceID c = hex_EncodeToString (TraceId span)" by simp
      with bucket[of c] c show ?thesis by (intro grp) simp_all
    qed
    have b: "TraceID c = [] \<and> SpanID c = [] \<and>
             (\<exists>g. GetFileTraces ?w' (FilePath c) [] = Some g \<and> c \<in> set g)"
      if c: "c \<in> set ds" for c
    proof -
      from analyzeEvents_ids[OF ds c] have ids: "TraceID c = [] \<and> SpanID c = []" .
      with bucket[of c] c grp[of c ?w' "FilePath c" "[]"] show ?thesis by simp
    qed
    from cs ds run a b show ?thesis by blast
  qed
  have sp: "\<forall>c \<in> set scs. TraceID c = hex_EncodeToString (TraceId span) \<and>
                       SpanID c = hex_EncodeToString (SpanId span)"
    if "extractFilePathsFromSpan env ca (Some span) = Some scs"
    using that spanAttributes_ids[of env ca span "Attributes span" scs]
    by (simp add: extractFilePathsFromSpan_def)
  have ev: "\<forall>c \<in> set ecs. TraceID c = [] \<and> SpanID c = []"
    if "extractFilePathsFromEvent env ca event = Some ecs"
    using that event_contexts_ids by blast
  have tr: "\<forall>c \<in> set tcs. TraceID c = [] \<and> SpanID c = []"
    if "processStackTrace env ca sevent = Some tcs"
    using that stack_contexts_ids by blast
  have sr: "\<exists>cs. extractFilePathsFromSpan env ca (Some span) = Some cs \<and>
            map FilePath cs = map GetStringValue (filter (namesFile env ca) attrs)"
    if "Attributes span = map Some attrs \<and>
        (\<forall>attr \<in> set attrs. namesFile env ca attr \<longrightarrow> readFile env (GetStringValue attr) \<noteq> StatFails)"
    using that extractFilePathsFromSpan_returns[of span attrs env ca] by blast
  have er: "\<exists>cs. extractFilePathsFromEvent env ca event = Some cs \<and>
            map FilePath cs = map GetStringValue (filter (namesFile env ca) eattrs)"
    if "Attributes_ev event = map Some eattrs \<and>
        (\<forall>attr \<in> set eattrs. namesFile env ca attr \<longrightarrow> readFile env (GetStringValue attr) \<noteq> StatFails)"
    using that extractFilePathsFromEvent_returns[of event eattrs env ca] by blast
  note g = GetFileTraces_groups[of w path "[]"]
  show ?thesis
    apply (intro conjI impI)
    subgoal using sp by blast
    subgoal using ev by blast
    subgoal using tr by blast
    subgoal using sr by blast
    subgoal using er by blast
    subgoal using g by simp
    subgoal using handle by blast
    done
qed

text \<open>The theorem for the span with an attribute that names \<open>/p/b.go\<close>, an event that
  names \<open>/p/a.go\<close> and the event of the stack trace scenario.\<close>

theorem ids_only_from_span_attributes_witness:
  "extractFilePathsFromSpan exEnv exCa (Some exFileSpan) = Some [exFileContext] \<and>
   extractFilePathsFromEvent exEnv exCa exIoEvent = Some [exIoContext] \<and>
   processStackTrace exEnv exCa exEvent = Some [exStackContext] \<and>
   TraceID exFileContext = ''0a'' \<and> SpanID exFileContext = ''01'' \<and>
   TraceID exIoContext = [] \<and> SpanID exIoContext = [] \<and>
   TraceID exStackContext = [] \<and> SpanID exStackContext = [] \<and>
   (\<exists>w'. HandleSpan exEnv exCa (exSweep 0 []) 1 (Some exFileSpan) [Some exIoEvent, Some exEvent]
           (exWorld 0 0) = Some w' \<and>
         (\<exists>g. GetFileTraces w' ''/p/b.go'' ''0a'' = Some g \<and> exFileContext \<in> set g) \<and>
         (\<exists>g. GetFileTraces w' ''/p/a.go'' [] = Some g \<and> exIoContext \<in> set g) \<and>
         (\<exists>g. GetFileTraces w' ''/p/handler.go'' [] = Some g \<and> exStackContext \<in> set g))"
proof -
  have stat: "\<forall>f. readFile exEnv f \<noteq> StatFails" by (simp add: exEnv_def)
  have nn: "noNil exFileSpan [Some exIoEvent, Some exEvent]"
    by (simp add: noNil_def exFileSpan_def exIoEvent_def exEvent_def exSpan_def)
  have lim: "maxSpans (store (exWorld 0 0)) \<le> 0 \<and> retention (store (exWorld 0 0)) \<le> 0"
    by (simp add: exWorld_def)
  have hx: "hex_EncodeToString (TraceId exFileSpan) = ''0a''"
    "hex_EncodeToString (SpanId exFileSpan) = ''01''"
    by (simp_all add: exFileSpan_def exSpan_def hex_EncodeToString_def hexdigit_def)
  have io: "extractFilePathsFromEvent exEnv exCa exIoEvent = Some [exIoContext]"
    using ex_io by (simp add: analyzeEvent_def analyzer_defs exIoEvent_def)
  have st: "processStackTrace exEnv exCa exEvent = Some [exStackContext]"
    using ex_stack_context by (simp add: analyzeEvent_def ex_noattr) (simp add: exEvent_def)
  have evs: "analyzeEvents exEnv exCa [Some exIoEvent, Some exEvent] = Some [exIoContext, exStackContext]"
    by (simp add: ex_io ex_stack_context)
  have at: "Attributes exFileSpan =
              map Some [\<lparr>Key = ''code.filepath'', Value = Some (StringValue ''/p/b.go'')\<rparr>]"
    "Attributes_ev exIoEvent =
              map Some [\<lparr>Key = ''code.filepath'', Value = Some (StringValue ''/p/a.go'')\<rparr>]"
    by (simp_all add: exFileSpan_def exIoEvent_def)
  note inst = ids_only_from_span_attributes[where env = exEnv and ca = exCa and span = exFileSpan
        and scs = "[exFileContext]" and event = exIoEvent and ecs = "[exIoContext]"
        and sevent = exEvent and tcs = "[exStackContext]"
        and attrs = "[\<lparr>Key = ''code.filepath'', Value = Some (StringValue ''/p/b.go'')\<rparr>]"
        and eattrs = "[\<lparr>Key = ''code.filepath'', Value = Some (StringValue ''/p/a.go'')\<rparr>]"
        and w = "exWorld 0 0" and path = "[]" and events = "[Some exIoEvent, Some exEvent]"
        and sw = "exSweep 0 []" and p = 1]
  from inst ex_file io st hx have ids:
    "TraceID exFileContext = ''0a'' \<and> SpanID exFileContext = ''01''"
    "TraceID exIoContext = [] \<and> SpanID exIoContext = []"
    "TraceID exStackContext = [] \<and> SpanID exStackContext = []"
    by simp_all
  from inst stat nn lim
  obtain cs ds w' where r:
    "extractFilePathsFromSpan exEnv exCa (Some exFileSpan) = Some cs"
    "analyzeEvents exEnv exCa [Some exIoEvent, Some exEvent] = Some ds"
    "HandleSpan exEnv exCa (exSweep 0 []) 1 (Some exFileSpan) [Some exIoEvent, Some exEvent]
       (exWorld 0 0) = Some w'"
    "\<forall>c \<in> set cs. \<exists>g. GetFileTraces w' (FilePath c) (hex_EncodeToString (TraceId exFileSpan)) = Some g \<and>
                               c \<in> set g"
    "\<forall>c \<in> set ds. TraceID c = [] \<and> SpanID c = [] \<and>
                          (\<exists>g. GetFileTraces w' (FilePath c) [] = Some g \<and> c \<in> set g)"
    by blast
  from r(1) have cs: "cs = [exFileContext]" by (simp add: ex_file)
  from r(2) have ds: "ds = [exIoContext, exStackContext]" unfolding evs by simp
  have fp: "FilePath exFileContext = ''/p/b.go''" "FilePath exIoContext = ''/p/a.go''"
    "FilePath exStackContext = ''/p/handler.go''"
    by (simp_all add: exFileContext_def exIoContext_def exStackContext_def newContext_def)
  from r(4) cs hx fp have a: "\<exists>g. GetFileTraces w' ''/p/b.go'' ''0a'' = Some g \<and> exFileContext \<in> set g"
    by simp
  from r(5) ds fp have b: "\<exists>g. GetFileTraces w' ''/p/a.go'' [] = Some g \<and> exIoContext \<in> set g"
    "\<exists>g. GetFileTraces w' ''/p/handler.go'' [] = Some g \<and> exStackContext \<in> set g"
    by simp_all
  from r(3) a b have "\<exists>w'. HandleSpan exEnv exCa (exSweep 0 []) 1 (Some exFileSpan)
           [Some exIoEvent, Some exEvent] (exWorld 0 0) = Some w' \<and>
         (\<exists>g. GetFileTraces w' ''/p/b.go'' ''0a'' = Some g \<and> exFileContext \<in> set g) \<and>
         (\<exists>g. GetFileTraces w' ''/p/a.go'' [] = Some g \<and> exIoContext \<in> set g) \<and>
         (\<exists>g. GetFileTraces w' ''/p/handler.go'' [] = Some g \<and> exStackContext \<in> set g)"
    by blast
  with ex_file io st ids show ?thesis by simp
qed

text \<open>
  C2 fails on the code.  With a retention of one hour, a span of the trace \<open>01\<close> arrives
  with an event that names the file \<open>/p/a.go\<close>; two hours later a span of the trace
  \<open>02\<close> arrives and the sweep removes the trace \<open>01\<close>.  The sweep drops from the file
  index the contexts whose \<open>TraceID\<close> is that of the removed trace, and the context
  of the event has none: the bucket of \<open>/p/a.go\<close> stays, \<open>ListFiles\<close> still lists the
  file and \<open>GetFileTraces\<close> still returns the context, while only the trace \<open>02\<close> is
  stored.
\<close>

theorem evicted_trace_stays_in_file_index:
  "map_option (\<lambda>w. (dom (traces (store w)), dom (spansByFile (store w)),
                     ListFiles [''/p/a.go''] w, GetFileTraces w ''/p/a.go'' []))
     (HandleSpans exEnv exCa
        [(exSweep 1000 [''01''], 1, Some (exSpan 1 1 []), [Some exIoEvent]),
         (exLateSweep, 2, Some exLateSpan, [])]
        (exWorld 0 3600000000000))
   = Some ({''02''}, {''/p/a.go''}, [''/p/a.go''], Some [exIoContext])"
  by (simp add: HandleSpan_def newSpanData_def AnalyzeSpan_def extractFilePathsFromSpan_def ex_io
        store_defs example_defs exLateSpan_def exLateSweep_def ListFiles_def GetFileTraces_def
        exIoContext_def newContext_def)

section \<open>The HTTP backend\<close>

text \<open>
  C8 (as amended).  A request whose content type is neither
  \<open>application/x-protobuf\<close> nor \<open>application/json\<close> runs no callback and leaves the state
  of the application as it is.  It is answered 406 once its body has been read, with
  two exceptions that come before the content type is looked at: a request to
  \<open>/v1/logs\<close> on a server without log callback is answered 200, and a body that cannot
  be read ends the process.
\<close>

theorem unsupported_content_type:
  assumes "Header_Get (Header req) ''Content-Type'' \<noteq> ''application/x-protobuf''"
    and "Header_Get (Header req) ''Content-Type'' \<noteq> ''application/json''"
  shows "ServeHTTP dec hs req app =
     (if RequestURI req = ''/v1/logs'' \<and> logCallback hs = None then Responded StatusOK app 0 False
      else if Body req = None then Fatal
      else Responded StatusNotAcceptable app 0 False)"
  using assms
  by (auto simp: ServeHTTP_def handleTraces_def handleLogs_def Let_def split: option.splits)

text \<open>The theorem for a \<open>text/plain\<close> request to \<open>/v1/traces\<close>; the same request as
  \<open>application/json\<close> runs the callback once.\<close>

theorem unsupported_content_type_witness:
  "ServeHTTP exDecoders (NewHttpServer exCallback Suc) (exRequestTo ''/v1/traces'' ''text/plain'') 0
     = Responded StatusNotAcceptable 0 0 False \<and>
   ServeHTTP exDecoders (NewHttpServer exCallback Suc) (exRequestTo ''/v1/traces'' ''application/json'') 0
     = Responded StatusOK 1 1 False"
proof -
  have a: "Header_Get (Header (exRequestTo ''/v1/traces'' ''text/plain'')) ''Content-Type'' \<noteq> ''application/x-protobuf''"
    and b: "Header_Get (Header (exRequestTo ''/v1/traces'' ''text/plain'')) ''Content-Type'' \<noteq> ''application/json''"
    by (simp_all add: exRequestTo_def Header_Get_def)
  have "ServeHTTP exDecoders (NewHttpServer exCallback Suc) (exRequestTo ''/v1/traces'' ''text/plain'') 0
     = Responded StatusNotAcceptable 0 0 False"
    using unsupported_content_type[OF a b, of exDecoders "NewHttpServer exCallback Suc" 0]
    by (simp add: exRequestTo_def)
  moreover have "ServeHTTP exDecoders (NewHttpServer exCallback Suc) (exRequestTo ''/v1/traces'' ''application/json'') 0
     = Responded StatusOK 1 1 False"
    by (simp add: ServeHTTP_def handleTraces_def exRequestTo_def Header_Get_def exDecoders_def
          NewHttpServer_def exCallback_def Let_def)
  ultimately show ?thesis by simp
qed

text \<open>C8 as stated fails for the logs path of a server without log callback: the
  \<open>text/plain\<close> request is answered 200.\<close>

theorem logs_without_callback_counterexample:
  "ServeHTTP exDecoders (NewHttpServer exCallback Suc) (exRequestTo ''/v1/logs'' ''text/plain'') 0
     = Responded StatusOK 0 0 False"
  by (simp add: ServeHTTP_def handleLogs_def exRequestTo_def NewHttpServer_def)

text \<open>
  C7 fails on the code for the HTTP backend.  \<open>NewHttpServer\<close> is given the function
  to call at shutdown and drops it, and \<open>Stop\<close> calls \<open>http.Server.Close\<close> every time:
  after three calls of \<open>Stop\<close> the function (here the successor on a counter) has not
  run, and \<open>Close\<close> has been called three times.
\<close>

theorem http_stop_never_calls_stopper:
  "Stop (NewHttpServer exCallback Suc) (Stop (NewHttpServer exCallback Suc) (Stop (NewHttpServer exCallback Suc)
      \<lparr>application = 0, closeCalls = 0, shutdownCalls = 0\<rparr>))
   = \<lparr>application = 0, closeCalls = 3, shutdownCalls = 0\<rparr>"
  by (simp add: Stop_def)

end
